theory Spec2Isabelle
  imports Main "HOL-Library.AList" "HOL-Library.Char_ord" "HOL-Library.List_Lexorder"
begin

section \<open>The FIX dictionary generator (tools/generate-fix-dictionary.py)\<close>

text \<open>
  The script reads five relational tables of one FIX version (Fields, Enums, Messages,
  Components, MsgContents) and writes one dictionary document. The embedding starts after
  the XML reader: a table is the list of its records in file order, a record holds the
  texts the script reads from it. Numbers the script converts with \<open>int(...)\<close> while
  loading (field tags, indents, positions) are integers in the records; the tag-text of a
  content row stays a string, since the script tests and converts it itself. A text is a
  list of characters, one per code point, as Python's \<open>len\<close> and slicing count them.

  A Python \<open>dict\<close> keeps its keys in insertion order and assigning to a key that is
  present keeps its place: it is an association list with distinct keys, written with
  \<open>AList.update\<close> and read with \<open>map_of\<close>.
\<close>

subsection \<open>Records of the tables\<close>

record field_row =
  fr_tag :: int
  fr_name :: string
  fr_type :: string

text \<open>
  An enum record: the SymbolicName and Description elements may be missing (\<open>None\<close>);
  the text of an element that is there may be missing too (an empty element has text
  \<open>None\<close> in ElementTree).
\<close>

record enum_row =
  er_tag :: int
  er_value :: string
  er_symbolic_name :: "string option option"
  er_description :: "string option option"

record message_row =
  mr_componentId :: string
  mr_msgType :: string
  mr_name :: string

record component_row =
  cr_componentId :: string
  cr_name :: string
  cr_type :: string

record content_row =
  ct_componentId :: string
  ct_tagText :: string
  ct_indent :: int
  ct_position :: int

subsection \<open>The tables in memory\<close>

record field =
  f_tag :: int
  f_name :: string
  f_type :: string
  f_enums :: "(string \<times> string option) list"

datatype group_ref =
  CountRef (countTag: int) (countName: string) (ref_indent: int)
| ComponentRef (componentRef: string) (componentName: string) (ref_indent: int)

record tag_ref =
  t_tag :: int
  t_indent :: int

record message =
  m_componentId :: string
  m_msgType :: string
  m_name :: string
  m_tags :: "tag_ref list"
  m_groups :: "group_ref list"

record component =
  c_componentId :: string
  c_name :: string
  c_type :: string
  c_tags :: "tag_ref list"
  c_groups :: "group_ref list"

record item =
  tagText :: string
  indent :: int
  position :: int

record group =
  g_name :: string
  g_countTag :: int
  g_firstTag :: int
  g_memberTags :: "int list"

type_synonym fields_t = "(int \<times> field) list"
type_synonym messages_t = "(string \<times> message) list"
type_synonym components_t = "(string \<times> component) list"
type_synonym contents_t = "(string \<times> item list) list"
type_synonym groups_t = "(string \<times> group) list"

subsection \<open>Loaders\<close>

definition parse_fields :: "field_row list \<Rightarrow> fields_t" where
  "parse_fields rows =
     fold (\<lambda>r flds. AList.update (fr_tag r)
             \<lparr>f_tag = fr_tag r, f_name = fr_name r, f_type = fr_type r, f_enums = []\<rparr> flds)
          rows []"

definition description_of :: "enum_row \<Rightarrow> string option" where
  "description_of r =
     (case er_symbolic_name r of
        Some txt \<Rightarrow> txt
      | None \<Rightarrow> (case er_description r of Some txt \<Rightarrow> txt | None \<Rightarrow> Some (er_value r)))"

definition add_enum :: "enum_row \<Rightarrow> fields_t \<Rightarrow> fields_t" where
  "add_enum r flds =
     (case map_of flds (er_tag r) of
        Some f \<Rightarrow> AList.update (er_tag r)
                    (f\<lparr>f_enums := AList.update (er_value r) (description_of r) (f_enums f)\<rparr>)
                    flds
      | None \<Rightarrow> flds)"

definition parse_enums :: "enum_row list \<Rightarrow> fields_t \<Rightarrow> fields_t" where
  "parse_enums rows flds = fold add_enum rows flds"

definition parse_messages :: "message_row list \<Rightarrow> messages_t" where
  "parse_messages rows =
     fold (\<lambda>r messages. AList.update (mr_componentId r)
             \<lparr>m_componentId = mr_componentId r, m_msgType = mr_msgType r, m_name = mr_name r,
              m_tags = [], m_groups = []\<rparr> messages)
          rows []"

definition parse_components :: "component_row list \<Rightarrow> components_t" where
  "parse_components rows =
     fold (\<lambda>r components. AList.update (cr_componentId r)
             \<lparr>c_componentId = cr_componentId r, c_name = cr_name r, c_type = cr_type r,
              c_tags = [], c_groups = []\<rparr> components)
          rows []"

subsection \<open>Numeric tag-texts\<close>

text \<open>
  \<open>str.isdigit\<close> on a text of ASCII characters: the text is not empty and every
  character is one of 0 to 9. \<open>int\<close> of such a text is its decimal value.
\<close>

definition is_digit_char :: "char \<Rightarrow> bool" where
  "is_digit_char c = (48 \<le> (of_char c :: nat) \<and> (of_char c :: nat) \<le> 57)"

definition py_isdigit :: "string \<Rightarrow> bool" where
  "py_isdigit s = (s \<noteq> [] \<and> list_all is_digit_char s)"

definition py_int :: "string \<Rightarrow> int" where
  "py_int s = foldl (\<lambda>a c. 10 * a + (int (of_char c) - 48)) 0 s"

subsection \<open>Content associator\<close>

definition group_rows :: "content_row list \<Rightarrow> contents_t" where
  "group_rows rows =
     fold (\<lambda>r cc. AList.update (ct_componentId r)
             ((case map_of cc (ct_componentId r) of Some xs \<Rightarrow> xs | None \<Rightarrow> [])
              @ [\<lparr>tagText = ct_tagText r, indent = ct_indent r, position = ct_position r\<rparr>])
             cc)
          rows []"

definition sort_contents :: "contents_t \<Rightarrow> contents_t" where
  "sort_contents cc = map (\<lambda>(comp_id, xs). (comp_id, sort_key position xs)) cc"

text \<open>
  The body of the loop over one owner's rows. It only appends to the owner's two lists
  (\<open>target['tags']\<close>, \<open>target['groups']\<close>), so it is a function on that pair.
  The component looked up by name is the first one, in the order of the component table,
  whose declared name is the tag-text.
\<close>

definition add_item ::
  "components_t \<Rightarrow> fields_t \<Rightarrow> item \<Rightarrow> tag_ref list \<times> group_ref list
     \<Rightarrow> tag_ref list \<times> group_ref list" where
  "add_item components flds it tg =
     (let tag_text = tagText it in
      if tag_text = ''StandardHeader'' \<or> tag_text = ''StandardTrailer'' then tg
      else if py_isdigit tag_text then
        (let tag = py_int tag_text in
         case map_of flds tag of
           Some fld \<Rightarrow>
             if f_type fld = ''NumInGroup''
             then (fst tg, snd tg @ [CountRef tag (f_name fld) (indent it)])
             else (fst tg @ [\<lparr>t_tag = tag, t_indent = indent it\<rparr>], snd tg)
         | None \<Rightarrow> tg)
      else
        (case find (\<lambda>c. c_name c = tag_text) (map snd components) of
           Some ref_comp \<Rightarrow>
             (fst tg, snd tg @ [ComponentRef (c_componentId ref_comp) tag_text (indent it)])
         | None \<Rightarrow> tg))"

text \<open>
  \<open>target = messages.get(comp_id) or components.get(comp_id)\<close>: a record is a
  non-empty dict, hence true, so the message wins when both tables have the identifier.
\<close>

definition attach ::
  "fields_t \<Rightarrow> string \<times> item list \<Rightarrow> messages_t \<times> components_t
     \<Rightarrow> messages_t \<times> components_t" where
  "attach flds entry mc =
     (let comp_id = fst entry; contents = snd entry;
          messages = fst mc; components = snd mc in
      case map_of messages comp_id of
        Some m \<Rightarrow>
          (let tg = fold (add_item components flds) contents (m_tags m, m_groups m)
           in (AList.update comp_id (m\<lparr>m_tags := fst tg, m_groups := snd tg\<rparr>) messages,
               components))
      | None \<Rightarrow>
          (case map_of components comp_id of
             Some c \<Rightarrow>
               (let tg = fold (add_item components flds) contents (c_tags c, c_groups c)
                in (messages,
                    AList.update comp_id (c\<lparr>c_tags := fst tg, c_groups := snd tg\<rparr>) components))
           | None \<Rightarrow> mc))"

text \<open>The result: the two tables with their lists filled, and the grouped, sorted rows.\<close>

definition parse_msg_contents ::
  "content_row list \<Rightarrow> messages_t \<Rightarrow> components_t \<Rightarrow> fields_t
     \<Rightarrow> messages_t \<times> components_t \<times> contents_t" where
  "parse_msg_contents rows messages components flds =
     (let component_contents = sort_contents (group_rows rows);
          mc = fold (attach flds) component_contents (messages, components)
      in (fst mc, snd mc, component_contents))"

subsection \<open>Repeating-group identifier\<close>

record scan =
  count_tag :: "int option"
  first_tag :: "int option"
  member_tags :: "int list"

definition scan_item :: "fields_t \<Rightarrow> item \<Rightarrow> scan \<Rightarrow> scan" where
  "scan_item flds it st =
     (let tag_text = tagText it in
      if py_isdigit tag_text then
        (let tag = py_int tag_text in
         case map_of flds tag of
           Some fld \<Rightarrow>
             if f_type fld = ''NumInGroup'' \<and> count_tag st = None
             then st\<lparr>count_tag := Some tag\<rparr>
             else if indent it \<ge> 1
             then st\<lparr>first_tag := (if first_tag st = None then Some tag else first_tag st),
                     member_tags := member_tags st @ [tag]\<rparr>
             else st
         | None \<Rightarrow> st)
      else st)"

definition scan_contents :: "fields_t \<Rightarrow> item list \<Rightarrow> scan" where
  "scan_contents flds contents =
     fold (scan_item flds) contents \<lparr>count_tag = None, first_tag = None, member_tags = []\<rparr>"

text \<open>
  \<open>if count_tag and first_tag\<close>: a tag that is \<open>None\<close> or the number 0 is false.
\<close>

definition identify_component ::
  "contents_t \<Rightarrow> fields_t \<Rightarrow> string \<times> component \<Rightarrow> groups_t \<Rightarrow> groups_t" where
  "identify_component component_contents flds entry groups =
     (let comp_id = fst entry; comp = snd entry in
      if c_type comp = ''BlockRepeating'' then
        (let contents = (case map_of component_contents comp_id of Some xs \<Rightarrow> xs | None \<Rightarrow> [])
         in if contents = [] then groups
            else
              (let st = scan_contents flds contents in
               case (count_tag st, first_tag st) of
                 (Some ctag, Some ftag) \<Rightarrow>
                   if ctag \<noteq> 0 \<and> ftag \<noteq> 0
                   then AList.update (c_name comp)
                          \<lparr>g_name = c_name comp, g_countTag = ctag, g_firstTag = ftag,
                           g_memberTags = member_tags st\<rparr> groups
                   else groups
               | _ \<Rightarrow> groups))
      else groups)"

definition identify_repeating_groups ::
  "components_t \<Rightarrow> contents_t \<Rightarrow> fields_t \<Rightarrow> groups_t" where
  "identify_repeating_groups components component_contents flds =
     fold (identify_component component_contents flds) components []"

subsection \<open>Dictionary emitter\<close>

text \<open>
  The document is the element tree \<open>generate_xml\<close> builds: an element has a tag, its
  attributes in the order they are set, and its children. Serialising the tree is the
  library's work. \<open>str\<close> of an integer is its decimal text, with a minus sign below 0.
\<close>

datatype xml = Element (el_tag: string) (el_attrs: "(string \<times> string) list") (el_children: "xml list")

fun str_nat :: "nat \<Rightarrow> string" where
  "str_nat n = (if n < 10 then [char_of (48 + n)]
                else str_nat (n div 10) @ [char_of (48 + n mod 10)])"

declare str_nat.simps [simp del]

definition str_int :: "int \<Rightarrow> string" where
  "str_int i = (if i < 0 then CHR ''-'' # str_nat (nat (- i)) else str_nat (nat i))"

text \<open>
  \<open>desc[:100] if desc else value\<close>: a description that is \<open>None\<close> or empty is
  false, and then the raw value is written as it is.
\<close>

definition desc_attr :: "string \<Rightarrow> string option \<Rightarrow> string" where
  "desc_attr val desc =
     (case desc of
        Some d \<Rightarrow> if d \<noteq> [] then take 100 d else val
      | None \<Rightarrow> val)"

definition enum_el :: "string \<times> string option \<Rightarrow> xml" where
  "enum_el e = Element ''enum'' [(''value'', fst e), (''desc'', desc_attr (fst e) (snd e))] []"

text \<open>
  \<open>sorted(field['enums'].items())\<close> compares (value, description) pairs; the values
  are the keys of a dict, so no two are equal and the value alone decides.
\<close>

definition field_el :: "field \<Rightarrow> xml" where
  "field_el f =
     Element ''field''
       [(''tag'', str_int (f_tag f)), (''name'', f_name f), (''type'', f_type f)]
       (map enum_el (sort_key fst (f_enums f)))"

definition fields_section :: "fields_t \<Rightarrow> xml" where
  "fields_section flds =
     Element ''fields'' []
       (map (\<lambda>tag. field_el (the (map_of flds tag))) (sort (map fst flds)))"

definition group_el :: "group \<Rightarrow> xml" where
  "group_el g =
     Element ''group''
       [(''name'', g_name g), (''countTag'', str_int (g_countTag g)),
        (''firstTag'', str_int (g_firstTag g))]
       (map (\<lambda>tag. Element ''member'' [(''tag'', str_int tag)] []) (g_memberTags g))"

definition groups_section :: "groups_t \<Rightarrow> xml" where
  "groups_section groups =
     Element ''groups'' []
       (map (\<lambda>name. group_el (the (map_of groups name))) (sort (map fst groups)))"

definition group_ref_els :: "groups_t \<Rightarrow> group_ref \<Rightarrow> xml list" where
  "group_ref_els groups group_info =
     (case group_info of
        CountRef ctag cname ind \<Rightarrow>
          (case find (\<lambda>entry. g_countTag (snd entry) = ctag) groups of
             Some entry \<Rightarrow> [Element ''groupRef'' [(''name'', fst entry)] []]
           | None \<Rightarrow> [])
      | ComponentRef ref comp_name ind \<Rightarrow>
          if comp_name \<in> set (map fst groups)
          then [Element ''groupRef'' [(''name'', comp_name)] []]
          else [])"

definition message_el :: "groups_t \<Rightarrow> message \<Rightarrow> xml" where
  "message_el groups msg =
     Element ''message''
       [(''msgType'', m_msgType msg), (''name'', m_name msg)]
       (map (\<lambda>tag_info. Element ''tag'' [(''id'', str_int (t_tag tag_info))] []) (m_tags msg)
        @ concat (map (group_ref_els groups) (m_groups msg)))"

definition messages_section :: "messages_t \<Rightarrow> groups_t \<Rightarrow> xml" where
  "messages_section messages groups =
     Element ''messages'' []
       (map (\<lambda>comp_id. message_el groups (the (map_of messages comp_id)))
            (sort_key (\<lambda>x. m_msgType (the (map_of messages x))) (map fst messages)))"

definition generate_xml ::
  "string \<Rightarrow> fields_t \<Rightarrow> messages_t \<Rightarrow> components_t \<Rightarrow> groups_t \<Rightarrow> xml" where
  "generate_xml version flds messages components groups =
     Element ''fix-dictionary'' [(''version'', version)]
       [fields_section flds, groups_section groups, messages_section messages groups]"

subsection \<open>One version, and the command line\<close>

record tables =
  tb_fields :: "field_row list"
  tb_enums :: "enum_row list"
  tb_messages :: "message_row list"
  tb_components :: "component_row list"
  tb_contents :: "content_row list"

definition load_fields :: "tables \<Rightarrow> fields_t" where
  "load_fields tb = parse_enums (tb_enums tb) (parse_fields (tb_fields tb))"

text \<open>The file name of the document and the document, from the tables of the version.\<close>

definition process_version :: "string \<Rightarrow> tables \<Rightarrow> string \<times> xml" where
  "process_version version tb =
     (let flds = load_fields tb;
          messages = parse_messages (tb_messages tb);
          components = parse_components (tb_components tb);
          r = parse_msg_contents (tb_contents tb) messages components flds;
          messages = fst r; components = fst (snd r); component_contents = snd (snd r);
          groups = identify_repeating_groups components component_contents flds;
          output_name = filter (\<lambda>c. c \<noteq> CHR ''.'') version @ ''.xml''
      in (output_name, generate_xml version flds messages components groups))"

text \<open>
  \<open>main\<close> as the sequence of its effects. The file system enters through three
  functions of the library: \<open>os.path.exists\<close>, \<open>os.path.join\<close> and
  \<open>os.path.basename\<close>. \<open>argv\<close> is \<open>sys.argv\<close>, the script's name first.
\<close>

datatype event =
  Print string
| Exit int
| MakeDirs string
| ProcessVersion string string string

text \<open>The nested directory: a repository that holds a folder of its own name again.\<close>

definition resolve_repo_path ::
  "(string \<Rightarrow> bool) \<Rightarrow> (string \<Rightarrow> string \<Rightarrow> string) \<Rightarrow> (string \<Rightarrow> string)
     \<Rightarrow> string \<Rightarrow> string" where
  "resolve_repo_path path_exists path_join path_basename repo_path =
     (let inner_path = path_join repo_path (path_basename repo_path)
      in if path_exists inner_path then inner_path else repo_path)"

definition main ::
  "(string \<Rightarrow> bool) \<Rightarrow> (string \<Rightarrow> string \<Rightarrow> string) \<Rightarrow> (string \<Rightarrow> string)
     \<Rightarrow> string list \<Rightarrow> event list" where
  "main path_exists path_join path_basename argv =
     (if length argv < 3 then
        [Print ''Usage: python generate-fix-dictionary.py <fix-repository-path> <output-dir> [versions...]'',
         Print ''Example: python generate-fix-dictionary.py C:/fix_repository ./output FIX.4.2 FIX.4.4'',
         Exit 1]
      else
        (let output_dir = argv ! 2;
             versions = (if length argv > 3 then drop 3 argv
                         else [''FIX.4.0'', ''FIX.4.1'', ''FIX.4.2'', ''FIX.4.3'', ''FIX.4.4'']);
             repo_path = resolve_repo_path path_exists path_join path_basename (argv ! 1)
         in if \<not> path_exists repo_path then
              [Print (''Error: Repository path not found: '' @ repo_path), Exit 1]
            else
              [MakeDirs output_dir]
              @ map (\<lambda>version. ProcessVersion repo_path version output_dir) versions
              @ [Print (CHR 0x0A # ''Done!'')]))"

text \<open>The versions \<open>main\<close> hands to \<open>process_version\<close>, in order.\<close>

definition processed :: "event list \<Rightarrow> string list" where
  "processed evs = concat (map (\<lambda>ev. case ev of ProcessVersion r v d \<Rightarrow> [v] | _ \<Rightarrow> []) evs)"

subsection \<open>Vocabulary of the statements\<close>

text \<open>
  The statements below speak about rows the way the description of the tool does. A count
  row has a numeric tag-text that resolves to a field of type NumInGroup; a member row has
  a numeric tag-text that resolves to any known field and sits at depth 1 or more.
  \<open>row_tags\<close> lists the tags of the member rows of a list of rows, in order, and
  \<open>after_count\<close> is what follows the first count row.
\<close>

definition is_count_row :: "fields_t \<Rightarrow> item \<Rightarrow> bool" where
  "is_count_row flds it =
     (py_isdigit (tagText it) \<and>
      (case map_of flds (py_int (tagText it)) of
         Some fld \<Rightarrow> f_type fld = ''NumInGroup''
       | None \<Rightarrow> False))"

definition is_member_row :: "fields_t \<Rightarrow> item \<Rightarrow> bool" where
  "is_member_row flds it =
     (py_isdigit (tagText it) \<and> map_of flds (py_int (tagText it)) \<noteq> None \<and> indent it \<ge> 1)"

definition row_tags :: "fields_t \<Rightarrow> item list \<Rightarrow> int list" where
  "row_tags flds xs = map (\<lambda>it. py_int (tagText it)) (filter (is_member_row flds) xs)"

definition after_count :: "fields_t \<Rightarrow> item list \<Rightarrow> item list" where
  "after_count flds contents = tl (dropWhile (\<lambda>x. \<not> is_count_row flds x) contents)"

definition add_members :: "int list \<Rightarrow> scan \<Rightarrow> scan" where
  "add_members ts st =
     st\<lparr>first_tag := (if first_tag st = None then (case ts of [] \<Rightarrow> None | t # _ \<Rightarrow> Some t)
                      else first_tag st),
        member_tags := member_tags st @ ts\<rparr>"

text \<open>A group of the result and the component whose scan wrote it.\<close>

definition group_origin ::
  "components_t \<Rightarrow> contents_t \<Rightarrow> fields_t \<Rightarrow> string \<Rightarrow> group \<Rightarrow> bool" where
  "group_origin components cc flds name g =
     (\<exists>comp_id cmp contents.
        (comp_id, cmp) \<in> set components \<and> c_name cmp = name
        \<and> c_type cmp = ''BlockRepeating''
        \<and> map_of cc comp_id = Some contents
        \<and> count_tag (scan_contents flds contents) = Some (g_countTag g)
        \<and> first_tag (scan_contents flds contents) = Some (g_firstTag g)
        \<and> g_countTag g \<noteq> 0 \<and> g_firstTag g \<noteq> 0
        \<and> g_name g = name
        \<and> g_memberTags g = member_tags (scan_contents flds contents))"

text \<open>
  For the associator: \<open>rows_of k rows\<close> is the rows of owner \<open>k\<close> in file
  order, \<open>item_refs\<close> is what one row adds to an owner's two lists (the loop body run
  on empty lists), and \<open>extend_message\<close>, \<open>extend_component\<close> append what a list of
  rows adds, row by row. \<open>lookup\<close> is \<open>component_contents.get(comp_id, [])\<close>, and
  \<open>names\<close> is all the name lookup of the loop body reads of the component table.
\<close>

definition to_item :: "content_row \<Rightarrow> item" where
  "to_item r = \<lparr>tagText = ct_tagText r, indent = ct_indent r, position = ct_position r\<rparr>"

definition rows_of :: "string \<Rightarrow> content_row list \<Rightarrow> item list" where
  "rows_of k rows = map to_item (filter (\<lambda>r. ct_componentId r = k) rows)"

definition item_refs :: "components_t \<Rightarrow> fields_t \<Rightarrow> item \<Rightarrow> tag_ref list \<times> group_ref list" where
  "item_refs components flds it = add_item components flds it ([], [])"

definition lookup :: "contents_t \<Rightarrow> string \<Rightarrow> item list" where
  "lookup cc k = (case map_of cc k of Some xs \<Rightarrow> xs | None \<Rightarrow> [])"

definition names :: "components_t \<Rightarrow> (string \<times> string) list" where
  "names components = map (\<lambda>e. (c_name (snd e), c_componentId (snd e))) components"

definition extend_message :: "components_t \<Rightarrow> fields_t \<Rightarrow> item list \<Rightarrow> message \<Rightarrow> message" where
  "extend_message components flds items m =
     m\<lparr>m_tags := m_tags m @ concat (map (\<lambda>it. fst (item_refs components flds it)) items),
       m_groups := m_groups m @ concat (map (\<lambda>it. snd (item_refs components flds it)) items)\<rparr>"

definition extend_component :: "components_t \<Rightarrow> fields_t \<Rightarrow> item list \<Rightarrow> component \<Rightarrow> component" where
  "extend_component components flds items c =
     c\<lparr>c_tags := c_tags c @ concat (map (\<lambda>it. fst (item_refs components flds it)) items),
       c_groups := c_groups c @ concat (map (\<lambda>it. snd (item_refs components flds it)) items)\<rparr>"

definition assoc_result ::
  "fields_t \<Rightarrow> contents_t \<Rightarrow> messages_t \<Rightarrow> components_t \<Rightarrow> messages_t \<times> components_t \<Rightarrow> bool" where
  "assoc_result flds cc ms cs R =
     (names (snd R) = names cs \<and> map fst (fst R) = map fst ms \<and> map fst (snd R) = map fst cs
      \<and> (\<forall>k. map_of (fst R) k =
             (case map_of cc k of
                None \<Rightarrow> map_of ms k
              | Some items \<Rightarrow> map_option (extend_message cs flds items) (map_of ms k)))
      \<and> (\<forall>k. map_of (snd R) k =
             (if map_of ms k \<noteq> None then map_of cs k
              else case map_of cc k of
                     None \<Rightarrow> map_of cs k
                   | Some items \<Rightarrow> map_option (extend_component cs flds items) (map_of cs k))))"

text \<open>
  The two placeholder tag-texts, and a content table without the rows that carry them.
\<close>

definition is_placeholder :: "string \<Rightarrow> bool" where
  "is_placeholder t = (t = ''StandardHeader'' \<or> t = ''StandardTrailer'')"

definition drop_placeholders :: "content_row list \<Rightarrow> content_row list" where
  "drop_placeholders rows = filter (\<lambda>r. \<not> is_placeholder (ct_tagText r)) rows"

subsection \<open>Small tables for concrete runs\<close>

definition mk_item :: "string \<Rightarrow> int \<Rightarrow> int \<Rightarrow> item" where
  "mk_item t i p = \<lparr>tagText = t, indent = i, position = p\<rparr>"

definition ex_fields :: fields_t where
  "ex_fields =
     [(1, \<lparr>f_tag = 1, f_name = ''Account'', f_type = ''STRING'', f_enums = []\<rparr>),
      (2, \<lparr>f_tag = 2, f_name = ''NoOrders'', f_type = ''NumInGroup'', f_enums = []\<rparr>),
      (3, \<lparr>f_tag = 3, f_name = ''NoLegs'', f_type = ''NumInGroup'', f_enums = []\<rparr>)]"

definition ex_components :: components_t where
  "ex_components =
     [(''1000'', \<lparr>c_componentId = ''1000'', c_name = ''OrdersGroup'', c_type = ''BlockRepeating'',
                 c_tags = [], c_groups = []\<rparr>)]"

definition ex_messages :: messages_t where
  "ex_messages =
     [(''14'', \<lparr>m_componentId = ''14'', m_msgType = ''D'', m_name = ''NewOrderSingle'',
               m_tags = [], m_groups = []\<rparr>)]"

definition ex_components2 :: components_t where
  "ex_components2 =
     [(''14'', \<lparr>c_componentId = ''14'', c_name = ''Shadow'', c_type = ''Block'',
               c_tags = [], c_groups = []\<rparr>),
      (''1000'', \<lparr>c_componentId = ''1000'', c_name = ''OrdersGroup'', c_type = ''BlockRepeating'',
                 c_tags = [], c_groups = []\<rparr>)]"

definition ex_rows :: "content_row list" where
  "ex_rows =
     [\<lparr>ct_componentId = ''14'', ct_tagText = ''3'', ct_indent = 0, ct_position = 3\<rparr>,
      \<lparr>ct_componentId = ''1000'', ct_tagText = ''1'', ct_indent = 1, ct_position = 2\<rparr>,
      \<lparr>ct_componentId = ''14'', ct_tagText = ''2'', ct_indent = 0, ct_position = 2\<rparr>,
      \<lparr>ct_componentId = ''1000'', ct_tagText = ''2'', ct_indent = 0, ct_position = 1\<rparr>,
      \<lparr>ct_componentId = ''14'', ct_tagText = ''1'', ct_indent = 0, ct_position = 1\<rparr>]"

text \<open>
  What the loaders keep true of the field table: its keys are distinct, a record sits under
  its own tag, and the raw values of its enum mapping are distinct.
\<close>

definition fields_inv :: "fields_t \<Rightarrow> bool" where
  "fields_inv flds =
     (distinct (map fst flds)
      \<and> (\<forall>(k, f)\<in>set flds. f_tag f = k \<and> distinct (map fst (f_enums f))))"

text \<open>
  An enum record whose SymbolicName element is there but empty, with a raw value of 101
  characters.
\<close>

definition ex_long_enum :: tables where
  "ex_long_enum =
     \<lparr>tb_fields = [\<lparr>fr_tag = 1, fr_name = ''Account'', fr_type = ''STRING''\<rparr>],
      tb_enums = [\<lparr>er_tag = 1, er_value = replicate 101 (CHR ''A''),
                   er_symbolic_name = Some None, er_description = None\<rparr>],
      tb_messages = [], tb_components = [], tb_contents = []\<rparr>"

text \<open>The same raw value in an enum record that has neither element.\<close>

definition ex_absent_enum :: tables where
  "ex_absent_enum =
     \<lparr>tb_fields = [\<lparr>fr_tag = 1, fr_name = ''Account'', fr_type = ''STRING''\<rparr>],
      tb_enums = [\<lparr>er_tag = 1, er_value = replicate 101 (CHR ''A''),
                   er_symbolic_name = None, er_description = None\<rparr>],
      tb_messages = [], tb_components = [], tb_contents = []\<rparr>"

section \<open>Properties\<close>

subsection \<open>Command line\<close>

text \<open>
  C8. With fewer than two arguments (\<open>sys.argv\<close> shorter than 3) the program prints the
  two lines of the usage message, the usage line and the example line, and exits with
  status 1. With enough arguments and a resolved repository path that does not exist it
  prints an error naming that path and exits with status 1. In both cases no version has
  been processed.
\<close>

theorem main_usage_and_missing_repo:
  "(length argv < 3 \<longrightarrow>
      main path_exists path_join path_basename argv =
        [Print ''Usage: python generate-fix-dictionary.py <fix-repository-path> <output-dir> [versions...]'',
         Print ''Example: python generate-fix-dictionary.py C:/fix_repository ./output FIX.4.2 FIX.4.4'',
         Exit 1]
      \<and> processed (main path_exists path_join path_basename argv) = [])
   \<and> (3 \<le> length argv
        \<and> \<not> path_exists (resolve_repo_path path_exists path_join path_basename (argv ! 1)) \<longrightarrow>
      main path_exists path_join path_basename argv =
        [Print (''Error: Repository path not found: ''
                @ resolve_repo_path path_exists path_join path_basename (argv ! 1)), Exit 1]
      \<and> processed (main path_exists path_join path_basename argv) = [])"
  by (simp add: main_def Let_def processed_def)

theorem main_usage_and_missing_repo_witness:
  "length [''gen.py'', ''repo''] < 3
   \<and> main (\<lambda>p. False) (\<lambda>a b. a @ ''/'' @ b) (\<lambda>p. p) [''gen.py'', ''repo'']
       = [Print ''Usage: python generate-fix-dictionary.py <fix-repository-path> <output-dir> [versions...]'',
          Print ''Example: python generate-fix-dictionary.py C:/fix_repository ./output FIX.4.2 FIX.4.4'',
          Exit 1]
   \<and> 3 \<le> length [''gen.py'', ''repo'', ''out'']
   \<and> \<not> (\<lambda>p. False) (resolve_repo_path (\<lambda>p. False) (\<lambda>a b. a @ ''/'' @ b) (\<lambda>p. p) ([''gen.py'', ''repo'', ''out''] ! 1))
   \<and> main (\<lambda>p. False) (\<lambda>a b. a @ ''/'' @ b) (\<lambda>p. p) [''gen.py'', ''repo'', ''out'']
       = [Print ''Error: Repository path not found: repo'', Exit 1]"
  using main_usage_and_missing_repo
          [of "[''gen.py'', ''repo'']" "\<lambda>p. False" "\<lambda>a b. a @ ''/'' @ b" "\<lambda>p. p"]
        main_usage_and_missing_repo
          [of "[''gen.py'', ''repo'', ''out'']" "\<lambda>p. False" "\<lambda>a b. a @ ''/'' @ b" "\<lambda>p. p"]
  by (simp add: resolve_repo_path_def)

subsection \<open>Scanning the rows of a repeating component\<close>

lemma add_members_Nil [simp]: "add_members [] st = st"
  by (simp add: add_members_def)

lemma add_members_Cons:
  "add_members (t # ts) st =
   add_members ts (st\<lparr>first_tag := (if first_tag st = None then Some t else first_tag st),
                      member_tags := member_tags st @ [t]\<rparr>)"
  by (cases "first_tag st") (simp_all add: add_members_def)

lemma count_tag_add_members [simp]: "count_tag (add_members ts st) = count_tag st"
  by (simp add: add_members_def)

lemma scan_item_plain:
  assumes "count_tag st \<noteq> None \<or> \<not> is_count_row flds it"
  shows "scan_item flds it st = add_members (row_tags flds [it]) st"
  using assms
  by (auto simp: scan_item_def is_count_row_def is_member_row_def row_tags_def add_members_def
           Let_def split: option.splits)

lemma row_tags_Cons: "row_tags flds (x # xs) = row_tags flds [x] @ row_tags flds xs"
  by (simp add: row_tags_def)

lemma row_tags_append: "row_tags flds (xs @ ys) = row_tags flds xs @ row_tags flds ys"
  by (simp add: row_tags_def)

lemma add_members_append: "add_members (ts @ us) st = add_members us (add_members ts st)"
  by (cases ts) (auto simp: add_members_def split: list.splits)

lemma fold_scan_plain:
  assumes "count_tag st \<noteq> None \<or> (\<forall>x\<in>set xs. \<not> is_count_row flds x)"
  shows "fold (scan_item flds) xs st = add_members (row_tags flds xs) st"
  using assms
proof (induction xs arbitrary: st)
  case Nil
  then show ?case by (simp add: row_tags_def)
next
  case (Cons x xs)
  have step: "scan_item flds x st = add_members (row_tags flds [x]) st"
    using Cons.prems by (intro scan_item_plain) auto
  have "count_tag (scan_item flds x st) \<noteq> None \<or> (\<forall>y\<in>set xs. \<not> is_count_row flds y)"
    using Cons.prems by (auto simp: step)
  from Cons.IH [OF this] show ?case
    by (simp add: step row_tags_Cons [of flds x xs] add_members_append)
qed

lemma scan_item_count:
  assumes "is_count_row flds it" "count_tag st = None"
  shows "scan_item flds it st = st\<lparr>count_tag := Some (py_int (tagText it))\<rparr>"
  using assms by (auto simp: scan_item_def is_count_row_def Let_def split: option.splits)


lemma scan_contents_split:
  assumes "\<forall>x\<in>set pre. \<not> is_count_row flds x" and "is_count_row flds r"
  shows "scan_contents flds (pre @ r # post) =
         add_members (row_tags flds pre @ row_tags flds post)
           \<lparr>count_tag = Some (py_int (tagText r)), first_tag = None, member_tags = []\<rparr>"
proof -
  let ?s0 = "\<lparr>count_tag = None, first_tag = None, member_tags = []\<rparr>"
  have a: "fold (scan_item flds) pre ?s0 = add_members (row_tags flds pre) ?s0"
    using assms(1) by (intro fold_scan_plain) simp
  have b: "scan_item flds r (add_members (row_tags flds pre) ?s0)
           = (add_members (row_tags flds pre) ?s0)\<lparr>count_tag := Some (py_int (tagText r))\<rparr>"
    using assms(2) by (intro scan_item_count) simp_all
  have c: "fold (scan_item flds) post ((add_members (row_tags flds pre) ?s0)\<lparr>count_tag := Some (py_int (tagText r))\<rparr>)
           = add_members (row_tags flds post) ((add_members (row_tags flds pre) ?s0)\<lparr>count_tag := Some (py_int (tagText r))\<rparr>)"
    by (intro fold_scan_plain) simp
  show ?thesis
    unfolding scan_contents_def
    by (simp add: a b c add_members_append) (simp add: add_members_def split: list.splits)
qed

lemma scan_contents_none:
  assumes "\<forall>x\<in>set xs. \<not> is_count_row flds x"
  shows "scan_contents flds xs = add_members (row_tags flds xs) \<lparr>count_tag = None, first_tag = None, member_tags = []\<rparr>"
  unfolding scan_contents_def using assms by (intro fold_scan_plain) simp


lemma first_tag_add_members:
  "first_tag (add_members ts \<lparr>count_tag = c, first_tag = None, member_tags = []\<rparr>)
     = (case ts of [] \<Rightarrow> None | t # _ \<Rightarrow> Some t)"
  "member_tags (add_members ts \<lparr>count_tag = c, first_tag = None, member_tags = []\<rparr>) = ts"
  by (simp_all add: add_members_def)

lemma row_tags_known: "t \<in> set (row_tags flds xs) \<Longrightarrow> map_of flds t \<noteq> None"
  by (auto simp: row_tags_def is_member_row_def)

lemma row_tags_mem:
  "t \<in> set (row_tags flds xs) \<longleftrightarrow> (\<exists>it\<in>set xs. is_member_row flds it \<and> py_int (tagText it) = t)"
  by (auto simp: row_tags_def)

lemma count_row_not_before:
  assumes "\<forall>x\<in>set pre. \<not> is_count_row flds x" and "is_count_row flds r"
  shows "py_int (tagText r) \<notin> set (row_tags flds pre)"
proof
  assume "py_int (tagText r) \<in> set (row_tags flds pre)"
  then obtain it where it: "it \<in> set pre" "is_member_row flds it"
      "py_int (tagText it) = py_int (tagText r)"
    by (auto simp: row_tags_mem)
  from assms(2) it(2,3) have "is_count_row flds it"
    by (auto simp: is_count_row_def is_member_row_def split: option.splits)
  with assms(1) it(1) show False by blast
qed

text \<open>What the scan of a component's rows yields, in terms of the rows.\<close>

lemma scan_contents_cases:
  "(\<forall>x\<in>set contents. \<not> is_count_row flds x) \<and> count_tag (scan_contents flds contents) = None
   \<or> (\<exists>pre r. contents = pre @ r # after_count flds contents
        \<and> (\<forall>x\<in>set pre. \<not> is_count_row flds x) \<and> is_count_row flds r
        \<and> scan_contents flds contents =
            add_members (row_tags flds pre @ row_tags flds (after_count flds contents))
              \<lparr>count_tag = Some (py_int (tagText r)), first_tag = None, member_tags = []\<rparr>)"
proof (cases "\<forall>x\<in>set contents. \<not> is_count_row flds x")
  case True
  then show ?thesis by (simp add: scan_contents_none)
next
  case False
  let ?P = "\<lambda>x. \<not> is_count_row flds x"
  let ?pre = "takeWhile ?P contents"
  from False have ne: "dropWhile ?P contents \<noteq> []" by (auto simp: dropWhile_eq_Nil_conv)
  then obtain r post where d: "dropWhile ?P contents = r # post" by (cases "dropWhile ?P contents") auto
  have r: "is_count_row flds r" using d hd_dropWhile [of ?P contents] ne by auto
  have post: "after_count flds contents = post" by (simp add: after_count_def d)
  have split: "contents = ?pre @ r # post" using takeWhile_dropWhile_id [of ?P contents] d by simp
  have pre: "\<forall>x\<in>set ?pre. \<not> is_count_row flds x" by (auto dest: set_takeWhileD)
  have "scan_contents flds (?pre @ r # post) =
          add_members (row_tags flds ?pre @ row_tags flds post)
            \<lparr>count_tag = Some (py_int (tagText r)), first_tag = None, member_tags = []\<rparr>"
    by (rule scan_contents_split [OF pre r])
  with split pre r post show ?thesis by metis
qed

lemma scan_first_is_head:
  "first_tag (scan_contents flds contents) =
     (case member_tags (scan_contents flds contents) of [] \<Rightarrow> None | t # _ \<Rightarrow> Some t)"
  using scan_contents_cases [of contents flds]
  by (auto simp: scan_contents_none first_tag_add_members)

lemma scan_members_known:
  "t \<in> set (member_tags (scan_contents flds contents)) \<Longrightarrow> map_of flds t \<noteq> None"
  using scan_contents_cases [of contents flds]
  by (auto simp: scan_contents_none first_tag_add_members dest: row_tags_known)

lemma scan_count_in_members:
  assumes "count_tag (scan_contents flds contents) = Some c"
  shows "c \<in> set (member_tags (scan_contents flds contents)) \<longleftrightarrow>
         (\<exists>it\<in>set (after_count flds contents). is_member_row flds it \<and> py_int (tagText it) = c)"
proof -
  from scan_contents_cases [of contents flds] assms
  obtain pre r where pr: "contents = pre @ r # after_count flds contents"
      "\<forall>x\<in>set pre. \<not> is_count_row flds x" "is_count_row flds r"
      "scan_contents flds contents =
         add_members (row_tags flds pre @ row_tags flds (after_count flds contents))
           \<lparr>count_tag = Some (py_int (tagText r)), first_tag = None, member_tags = []\<rparr>"
    by auto
  from pr(4) assms have c: "c = py_int (tagText r)" by simp
  have "c \<notin> set (row_tags flds pre)" unfolding c by (rule count_row_not_before [OF pr(2,3)])
  then show ?thesis by (auto simp: pr(4) first_tag_add_members row_tags_mem)
qed

lemma set_update_subset: "set (AList.update k v al) \<subseteq> insert (k, v) (set al)"
  by (induct al) auto

lemma identify_component_entries:
  assumes "(name, g) \<in> set (identify_component cc flds (comp_id, cmp) groups)"
  shows "(name, g) \<in> set groups \<or> group_origin [(comp_id, cmp)] cc flds name g"
proof (cases "identify_component cc flds (comp_id, cmp) groups = groups")
  case True
  with assms show ?thesis by simp
next
  case False
  then obtain contents ctag ftag where f:
      "c_type cmp = ''BlockRepeating''" "map_of cc comp_id = Some contents"
      "count_tag (scan_contents flds contents) = Some ctag"
      "first_tag (scan_contents flds contents) = Some ftag" "ctag \<noteq> 0" "ftag \<noteq> 0"
      "identify_component cc flds (comp_id, cmp) groups =
         AList.update (c_name cmp)
           \<lparr>g_name = c_name cmp, g_countTag = ctag, g_firstTag = ftag,
            g_memberTags = member_tags (scan_contents flds contents)\<rparr> groups"
    by (auto simp: identify_component_def Let_def split: if_splits option.splits)
  from assms f(7) set_update_subset
  have "(name, g) \<in> set groups \<or>
        (name, g) = (c_name cmp, \<lparr>g_name = c_name cmp, g_countTag = ctag, g_firstTag = ftag,
            g_memberTags = member_tags (scan_contents flds contents)\<rparr>)"
    by fastforce
  then show ?thesis
  proof
    assume "(name, g) \<in> set groups" then show ?thesis ..
  next
    assume "(name, g) = (c_name cmp, \<lparr>g_name = c_name cmp, g_countTag = ctag, g_firstTag = ftag,
            g_memberTags = member_tags (scan_contents flds contents)\<rparr>)"
    with f show ?thesis by (auto simp: group_origin_def)
  qed
qed

lemma group_origin_mono:
  "group_origin xs cc flds name g \<Longrightarrow> set xs \<subseteq> set ys \<Longrightarrow> group_origin ys cc flds name g"
  unfolding group_origin_def by blast

lemma fold_identify_entries:
  assumes "(name, g) \<in> set (fold (identify_component cc flds) components groups)"
  shows "(name, g) \<in> set groups \<or> group_origin components cc flds name g"
  using assms
proof (induction components arbitrary: groups)
  case Nil
  then show ?case by simp
next
  case (Cons e es)
  obtain comp_id cmp where e: "e = (comp_id, cmp)" by (cases e)
  from Cons.prems have "(name, g) \<in> set (fold (identify_component cc flds) es
                                          (identify_component cc flds e groups))" by simp
  from Cons.IH [OF this]
  show ?case
  proof
    assume "(name, g) \<in> set (identify_component cc flds e groups)"
    then have "(name, g) \<in> set groups \<or> group_origin [e] cc flds name g"
      unfolding e by (rule identify_component_entries)
    then show ?thesis by (auto intro: group_origin_mono)
  next
    assume "group_origin es cc flds name g"
    then show ?thesis by (auto intro: group_origin_mono)
  qed
qed

lemma groups_origin:
  "(name, g) \<in> set (identify_repeating_groups components cc flds)
     \<Longrightarrow> group_origin components cc flds name g"
  unfolding identify_repeating_groups_def by (drule fold_identify_entries) simp

lemma py_isdigit_simps:
  "py_isdigit ''1''" "py_isdigit ''2''" "py_isdigit ''3''"
  "py_int ''1'' = 1" "py_int ''2'' = 2" "py_int ''3'' = 3"
  by (simp_all add: py_isdigit_def is_digit_char_def py_int_def)

lemma groups_repeated_count_tag:
  "identify_repeating_groups ex_components
     [(''1000'', [mk_item ''2'' 0 1, mk_item ''2'' 1 2])] ex_fields
   = [(''OrdersGroup'',
       \<lparr>g_name = ''OrdersGroup'', g_countTag = 2, g_firstTag = 2, g_memberTags = [2]\<rparr>)]"
  by (simp add: identify_repeating_groups_def identify_component_def ex_components_def
        scan_contents_def scan_item_def ex_fields_def mk_item_def py_isdigit_simps Let_def)

lemma groups_second_count_row:
  "identify_repeating_groups ex_components
     [(''1000'', [mk_item ''2'' 0 1, mk_item ''3'' 1 2, mk_item ''1'' 1 3])] ex_fields
   = [(''OrdersGroup'',
       \<lparr>g_name = ''OrdersGroup'', g_countTag = 2, g_firstTag = 3, g_memberTags = [3, 1]\<rparr>)]"
  by (simp add: identify_repeating_groups_def identify_component_def ex_components_def
        scan_contents_def scan_item_def ex_fields_def mk_item_def py_isdigit_simps Let_def)

text \<open>
  C1, as the claim states it: the count tag of an emitted group never appears among its
  member tags. A repeating component whose count tag 2 comes again at depth 1 is emitted
  with count tag 2 and member list [2].
\<close>

theorem count_tag_in_members_counterexample:
  "identify_repeating_groups ex_components
     [(''1000'', [mk_item ''2'' 0 1, mk_item ''2'' 1 2])] ex_fields
   = [(''OrdersGroup'',
       \<lparr>g_name = ''OrdersGroup'', g_countTag = 2, g_firstTag = 2, g_memberTags = [2]\<rparr>)]
   \<and> (2::int) \<in> set [2]"
  using groups_repeated_count_tag by simp

text \<open>
  C1, amended. Every group of the result has a non-empty member list and was written by a
  repeating component of that name whose scan found both a count tag and a first member.
  The count tag is among the members exactly when a member row after the first count row
  carries the same number. A repeating component whose scan finds no count tag or no first
  member leaves the groups as they are.
\<close>

theorem group_members_and_count_tag:
  assumes "(name, g) \<in> set (identify_repeating_groups components component_contents flds)"
  shows "g_memberTags g \<noteq> []
    \<and> (\<exists>comp_id cmp contents.
          (comp_id, cmp) \<in> set components \<and> c_name cmp = name
          \<and> c_type cmp = ''BlockRepeating''
          \<and> map_of component_contents comp_id = Some contents
          \<and> count_tag (scan_contents flds contents) = Some (g_countTag g)
          \<and> first_tag (scan_contents flds contents) = Some (g_firstTag g)
          \<and> g_memberTags g = member_tags (scan_contents flds contents)
          \<and> (g_countTag g \<in> set (g_memberTags g) \<longleftrightarrow>
               (\<exists>it\<in>set (after_count flds contents).
                  is_member_row flds it \<and> py_int (tagText it) = g_countTag g)))
    \<and> (\<forall>comp_id cmp groups.
          count_tag (scan_contents flds
             (case map_of component_contents comp_id of Some xs \<Rightarrow> xs | None \<Rightarrow> [])) = None
          \<or> first_tag (scan_contents flds
             (case map_of component_contents comp_id of Some xs \<Rightarrow> xs | None \<Rightarrow> [])) = None
          \<longrightarrow> identify_component component_contents flds (comp_id, cmp) groups = groups)"
proof -
  from groups_origin [OF assms]
  obtain comp_id cmp contents where o:
      "(comp_id, cmp) \<in> set components" "c_name cmp = name" "c_type cmp = ''BlockRepeating''"
      "map_of component_contents comp_id = Some contents"
      "count_tag (scan_contents flds contents) = Some (g_countTag g)"
      "first_tag (scan_contents flds contents) = Some (g_firstTag g)"
      "g_memberTags g = member_tags (scan_contents flds contents)"
    unfolding group_origin_def by blast
  have ne: "g_memberTags g \<noteq> []"
    using o(6) scan_first_is_head [of flds contents] by (auto simp: o(7) split: list.splits)
  have iff: "g_countTag g \<in> set (g_memberTags g) \<longleftrightarrow>
        (\<exists>it\<in>set (after_count flds contents).
           is_member_row flds it \<and> py_int (tagText it) = g_countTag g)"
    unfolding o(7) by (rule scan_count_in_members [OF o(5)])
  have skip: "\<forall>comp_id cmp groups.
          count_tag (scan_contents flds
             (case map_of component_contents comp_id of Some xs \<Rightarrow> xs | None \<Rightarrow> [])) = None
          \<or> first_tag (scan_contents flds
             (case map_of component_contents comp_id of Some xs \<Rightarrow> xs | None \<Rightarrow> [])) = None
          \<longrightarrow> identify_component component_contents flds (comp_id, cmp) groups = groups"
    by (auto simp: identify_component_def Let_def split: option.splits)
  from ne o iff skip show ?thesis by blast
qed

theorem group_members_and_count_tag_witness:
  "(''OrdersGroup'',
      \<lparr>g_name = ''OrdersGroup'', g_countTag = 2, g_firstTag = 3, g_memberTags = [3, 1]\<rparr>)
     \<in> set (identify_repeating_groups ex_components
              [(''1000'', [mk_item ''2'' 0 1, mk_item ''3'' 1 2, mk_item ''1'' 1 3])] ex_fields)
   \<and> g_memberTags
       \<lparr>g_name = ''OrdersGroup'', g_countTag = 2, g_firstTag = 3, g_memberTags = [3, 1]\<rparr> \<noteq> []"
proof -
  have m: "(''OrdersGroup'',
      \<lparr>g_name = ''OrdersGroup'', g_countTag = 2, g_firstTag = 3, g_memberTags = [3, 1]\<rparr>)
     \<in> set (identify_repeating_groups ex_components
              [(''1000'', [mk_item ''2'' 0 1, mk_item ''3'' 1 2, mk_item ''1'' 1 3])] ex_fields)"
    by (simp add: groups_second_count_row)
  from group_members_and_count_tag [OF m] m show ?thesis by blast
qed

text \<open>
  C2, as the claim states it: a count-type row after the first one contributes neither a
  count tag nor a member tag. The component below has the count rows 2 (depth 0) and 3
  (depth 1); the emitted group lists 3 as its first member.
\<close>

theorem later_count_row_counterexample:
  "identify_repeating_groups ex_components
     [(''1000'', [mk_item ''2'' 0 1, mk_item ''3'' 1 2, mk_item ''1'' 1 3])] ex_fields
   = [(''OrdersGroup'',
       \<lparr>g_name = ''OrdersGroup'', g_countTag = 2, g_firstTag = 3, g_memberTags = [3, 1]\<rparr>)]
   \<and> is_count_row ex_fields (mk_item ''3'' 1 2)"
  using groups_second_count_row
  by (simp add: is_count_row_def mk_item_def ex_fields_def py_isdigit_simps)

text \<open>
  C2, amended. Only the first count row of a component becomes the count tag. A later count
  row never replaces it; it is a member like any other known field when its depth is 1 or
  more, and contributes nothing at depth 0: the member list is the tags of all rows before
  and after the first count row that are numeric, known and at depth 1 or more.
\<close>

theorem first_count_row_only:
  assumes "\<forall>x\<in>set pre. \<not> is_count_row flds x" and "is_count_row flds r"
  shows "count_tag (scan_contents flds (pre @ r # post)) = Some (py_int (tagText r))
    \<and> member_tags (scan_contents flds (pre @ r # post))
        = map (\<lambda>it. py_int (tagText it)) (filter (is_member_row flds) (pre @ post))"
  using scan_contents_split [OF assms, of post]
  by (simp add: first_tag_add_members row_tags_def)

theorem first_count_row_only_witness:
  "\<not> is_count_row ex_fields (mk_item ''1'' 1 1)
   \<and> is_count_row ex_fields (mk_item ''2'' 0 2)
   \<and> count_tag (scan_contents ex_fields
        ([mk_item ''1'' 1 1] @ mk_item ''2'' 0 2 # [mk_item ''3'' 1 3, mk_item ''3'' 0 4]))
      = Some 2
   \<and> member_tags (scan_contents ex_fields
        ([mk_item ''1'' 1 1] @ mk_item ''2'' 0 2 # [mk_item ''3'' 1 3, mk_item ''3'' 0 4]))
      = [1, 3]"
proof -
  have a: "\<forall>x\<in>set [mk_item ''1'' 1 1]. \<not> is_count_row ex_fields x"
    by (simp add: is_count_row_def mk_item_def ex_fields_def py_isdigit_simps)
  have b: "is_count_row ex_fields (mk_item ''2'' 0 2)"
    by (simp add: is_count_row_def mk_item_def ex_fields_def py_isdigit_simps)
  from first_count_row_only [OF a b, of "[mk_item ''3'' 1 3, mk_item ''3'' 0 4]"] a b
  show ?thesis
    by (simp add: is_member_row_def mk_item_def ex_fields_def py_isdigit_simps)
qed

text \<open>
  C10. Every group of the derived mapping has a non-empty member list, its first-member
  anchor is the first element of that list, and every member tag is a key of the field
  table.
\<close>

theorem group_first_tag_is_head:
  assumes "(name, g) \<in> set (identify_repeating_groups components component_contents flds)"
  shows "g_memberTags g \<noteq> [] \<and> g_firstTag g = hd (g_memberTags g)
    \<and> (\<forall>t\<in>set (g_memberTags g). map_of flds t \<noteq> None)"
proof -
  from groups_origin [OF assms]
  obtain contents where o:
      "first_tag (scan_contents flds contents) = Some (g_firstTag g)"
      "g_memberTags g = member_tags (scan_contents flds contents)"
    unfolding group_origin_def by blast
  have "g_memberTags g \<noteq> [] \<and> g_firstTag g = hd (g_memberTags g)"
    using o(1) scan_first_is_head [of flds contents] by (auto simp: o(2) split: list.splits)
  moreover have "\<forall>t\<in>set (g_memberTags g). map_of flds t \<noteq> None"
    unfolding o(2) by (blast dest: scan_members_known)
  ultimately show ?thesis by blast
qed

theorem group_first_tag_is_head_witness:
  "(''OrdersGroup'',
      \<lparr>g_name = ''OrdersGroup'', g_countTag = 2, g_firstTag = 2, g_memberTags = [2]\<rparr>)
     \<in> set (identify_repeating_groups ex_components
              [(''1000'', [mk_item ''2'' 0 1, mk_item ''2'' 1 2])] ex_fields)
   \<and> g_firstTag
       \<lparr>g_name = ''OrdersGroup'', g_countTag = 2, g_firstTag = 2, g_memberTags = [2]\<rparr>
     = hd [2]"
proof -
  have m: "(''OrdersGroup'',
      \<lparr>g_name = ''OrdersGroup'', g_countTag = 2, g_firstTag = 2, g_memberTags = [2]\<rparr>)
     \<in> set (identify_repeating_groups ex_components
              [(''1000'', [mk_item ''2'' 0 1, mk_item ''2'' 1 2])] ex_fields)"
    by (simp add: groups_repeated_count_tag)
  from group_first_tag_is_head [OF m] m show ?thesis by simp
qed

subsection \<open>Rendering integers\<close>

lemma digit_char_of: "(d::nat) < 10 \<Longrightarrow> is_digit_char (char_of (48 + d))"
  by (simp add: is_digit_char_def)

lemma py_int_snoc: "py_int (s @ [c]) = 10 * py_int s + (int (of_char c) - 48)"
  by (simp add: py_int_def)

lemma str_nat_digits: "list_all is_digit_char (str_nat n) \<and> str_nat n \<noteq> []"
proof (induction n rule: str_nat.induct)
  case (1 n)
  show ?case
  proof (cases "n < 10")
    case True
    then show ?thesis by (simp add: str_nat.simps [of n] digit_char_of)
  next
    case False
    with 1 show ?thesis by (simp add: str_nat.simps [of n] digit_char_of)
  qed
qed

lemma py_int_str_nat: "py_int (str_nat n) = int n"
proof (induction n rule: str_nat.induct)
  case (1 n)
  show ?case
  proof (cases "n < 10")
    case True
    then show ?thesis by (simp add: str_nat.simps [of n] py_int_def)
  next
    case False
    then have "py_int (str_nat n) = 10 * int (n div 10) + int (n mod 10)"
      using 1 by (simp add: str_nat.simps [of n] py_int_snoc)
    also have "\<dots> = int (10 * (n div 10) + n mod 10)" by (simp only: of_nat_add of_nat_mult of_nat_numeral)
    also have "\<dots> = int n" by simp
    finally show ?thesis .
  qed
qed

lemma str_nat_inj:
  assumes "str_nat m = str_nat n"
  shows "m = n"
proof -
  have "int m = py_int (str_nat m)" by (simp only: py_int_str_nat)
  also have "\<dots> = py_int (str_nat n)" by (simp only: assms)
  also have "\<dots> = int n" by (simp only: py_int_str_nat)
  finally show ?thesis by simp
qed

lemma str_nat_not_minus: "str_nat n \<noteq> CHR ''-'' # s"
proof
  assume a: "str_nat n = CHR ''-'' # s"
  from str_nat_digits [of n] have "is_digit_char (CHR ''-'')" unfolding a by simp
  then show False by (simp add: is_digit_char_def)
qed

lemma str_int_inj:
  assumes "str_int i = str_int j"
  shows "i = j"
proof (cases "i < 0")
  case True
  note i = this
  show ?thesis
  proof (cases "j < 0")
    case True
    with i assms have "str_nat (nat (- i)) = str_nat (nat (- j))" by (simp add: str_int_def)
    then have "nat (- i) = nat (- j)" by (rule str_nat_inj)
    with i True show ?thesis by simp
  next
    case False
    with i assms have "str_nat (nat j) = CHR ''-'' # str_nat (nat (- i))" by (simp add: str_int_def)
    then show ?thesis by (simp add: str_nat_not_minus)
  qed
next
  case False
  note i = this
  show ?thesis
  proof (cases "j < 0")
    case True
    with i assms have "str_nat (nat i) = CHR ''-'' # str_nat (nat (- j))" by (simp add: str_int_def)
    then show ?thesis by (simp add: str_nat_not_minus)
  next
    case False
    with i assms have "str_nat (nat i) = str_nat (nat j)" by (simp add: str_int_def)
    then have "nat i = nat j" by (rule str_nat_inj)
    with i False show ?thesis by simp
  qed
qed

lemma inj_str_int: "inj str_int"
  by (rule injI) (rule str_int_inj)

subsection \<open>The fields section\<close>

lemma fields_inv_update:
  assumes "fields_inv flds" "f_tag f = k" "distinct (map fst (f_enums f))"
  shows "fields_inv (AList.update k f flds)"
  using assms set_update_subset [of k f flds]
  unfolding fields_inv_def by (auto simp: distinct_update)

lemma fields_inv_fold_fields:
  "fields_inv flds \<Longrightarrow>
   fields_inv (fold (\<lambda>r flds. AList.update (fr_tag r)
             \<lparr>f_tag = fr_tag r, f_name = fr_name r, f_type = fr_type r, f_enums = []\<rparr> flds) rows flds)"
  by (induction rows arbitrary: flds) (simp_all add: fields_inv_update)

lemma fields_inv_parse_fields: "fields_inv (parse_fields rows)"
  unfolding parse_fields_def by (rule fields_inv_fold_fields) (simp add: fields_inv_def)

lemma fields_inv_add_enum: "fields_inv flds \<Longrightarrow> fields_inv (add_enum r flds)"
proof (cases "map_of flds (er_tag r)")
  case None
  assume "fields_inv flds"
  with None show ?thesis by (simp add: add_enum_def)
next
  case (Some f)
  assume inv: "fields_inv flds"
  from Some have "(er_tag r, f) \<in> set flds" by (rule map_of_SomeD)
  with inv have "f_tag f = er_tag r" "distinct (map fst (f_enums f))"
    unfolding fields_inv_def by auto
  with inv Some show ?thesis
    by (simp add: add_enum_def fields_inv_update distinct_update)
qed

lemma fields_inv_parse_enums: "fields_inv flds \<Longrightarrow> fields_inv (parse_enums rows flds)"
  unfolding parse_enums_def by (induction rows arbitrary: flds) (simp_all add: fields_inv_add_enum)

lemma fields_inv_load: "fields_inv (load_fields tb)"
  unfolding load_fields_def by (intro fields_inv_parse_enums fields_inv_parse_fields)

lemma fields_inv_lookup:
  assumes "fields_inv flds" "t \<in> set (map fst flds)"
  shows "\<exists>f. map_of flds t = Some f \<and> (t, f) \<in> set flds \<and> f_tag f = t
             \<and> distinct (map fst (f_enums f))"
proof -
  from assms(2) obtain f where "(t, f) \<in> set flds" by auto
  moreover from this assms(1) have "map_of flds t = Some f" by (simp add: fields_inv_def)
  ultimately show ?thesis using assms(1) unfolding fields_inv_def by auto
qed

lemma field_tag_attrs:
  assumes "fields_inv flds"
  shows "map (\<lambda>e. map_of (el_attrs e) ''tag'') (el_children (fields_section flds))
         = map (\<lambda>t. Some (str_int t)) (sort (map fst flds))"
proof -
  have "\<And>t. t \<in> set (sort (map fst flds)) \<Longrightarrow>
          map_of (el_attrs (field_el (the (map_of flds t)))) ''tag'' = Some (str_int t)"
  proof -
    fix t assume "t \<in> set (sort (map fst flds))"
    then have "t \<in> set (map fst flds)" by simp
    from fields_inv_lookup [OF assms this] show
      "map_of (el_attrs (field_el (the (map_of flds t)))) ''tag'' = Some (str_int t)"
      by (auto simp: field_el_def)
  qed
  then show ?thesis by (simp add: fields_section_def comp_def)
qed

text \<open>
  C6. The tag attributes of the field elements are the decimal texts of the keys of the
  loaded field table in sorted order; that order is strictly ascending, and no two
  attributes are equal. The table is the one the loaders build, whatever the records,
  repeated tags included.
\<close>

theorem field_tags_strictly_ascending:
  "map (\<lambda>e. map_of (el_attrs e) ''tag'') (el_children (fields_section (load_fields tb)))
     = map (\<lambda>t. Some (str_int t)) (sort (map fst (load_fields tb)))
   \<and> sorted_wrt (<) (sort (map fst (load_fields tb)))
   \<and> distinct (map (\<lambda>e. map_of (el_attrs e) ''tag'')
                 (el_children (fields_section (load_fields tb))))"
proof -
  have inv: "fields_inv (load_fields tb)" by (rule fields_inv_load)
  then have d: "distinct (sort (map fst (load_fields tb)))" by (simp add: fields_inv_def)
  then have s: "sorted_wrt (<) (sort (map fst (load_fields tb)))"
    by (simp add: strict_sorted_iff)
  have "inj (\<lambda>t. Some (str_int t))" by (rule injI) (simp add: str_int_inj)
  then have "distinct (map (\<lambda>t. Some (str_int t)) (sort (map fst (load_fields tb))))"
    using d by (simp add: distinct_map inj_on_def)
  with field_tag_attrs [OF inv] s show ?thesis by simp
qed

lemma str_int_1: "str_int 1 = ''1''"
  by code_simp

lemma load_long: "load_fields ex_long_enum =
   [(1, \<lparr>f_tag = 1, f_name = ''Account'', f_type = ''STRING'',
         f_enums = [(replicate 101 (CHR ''A''), None)]\<rparr>)]"
  by (simp add: load_fields_def ex_long_enum_def parse_fields_def parse_enums_def add_enum_def
        description_of_def)

lemma load_absent: "load_fields ex_absent_enum =
   [(1, \<lparr>f_tag = 1, f_name = ''Account'', f_type = ''STRING'',
         f_enums = [(replicate 101 (CHR ''A''), Some (replicate 101 (CHR ''A'')))]\<rparr>)]"
  by (simp add: load_fields_def ex_absent_enum_def parse_fields_def parse_enums_def add_enum_def
        description_of_def)

text \<open>
  C4. The claim: under every field the enum values are unique and the emitted description
  never exceeds 100 characters, whatever the symbolic name, description and raw value. The
  code at an enum record with an empty SymbolicName element and a raw value of 101
  characters: the desc attribute is the raw value, 101 characters long. With neither
  element in the record the same raw value is the description and is cut to 100
  characters; only the fall-back at emission writes it unsliced.
\<close>

theorem long_value_desc_not_truncated:
  "el_children (fields_section (load_fields ex_long_enum)) =
     [Element ''field'' [(''tag'', ''1''), (''name'', ''Account''), (''type'', ''STRING'')]
        [Element ''enum'' [(''value'', replicate 101 (CHR ''A'')),
                           (''desc'', replicate 101 (CHR ''A''))] []]]
   \<and> length (replicate 101 (CHR ''A'')) = 101
   \<and> el_children (fields_section (load_fields ex_absent_enum)) =
     [Element ''field'' [(''tag'', ''1''), (''name'', ''Account''), (''type'', ''STRING'')]
        [Element ''enum'' [(''value'', replicate 101 (CHR ''A'')),
                           (''desc'', replicate 100 (CHR ''A''))] []]]"
  by (simp add: load_long load_absent fields_section_def field_el_def enum_el_def desc_attr_def
        str_int_1)

subsection \<open>The content associator\<close>

subsection \<open>Rows grouped by owner\<close>

lemma group_rows_snoc:
  "group_rows (rows @ [r]) =
     AList.update (ct_componentId r) (lookup (group_rows rows) (ct_componentId r) @ [to_item r])
       (group_rows rows)"
  by (simp add: group_rows_def lookup_def to_item_def)

lemma distinct_group_rows: "distinct (map fst (group_rows rows))"
proof (induction rows rule: rev_induct)
  case Nil
  then show ?case by (simp add: group_rows_def)
next
  case (snoc r rows)
  then show ?case by (simp only: group_rows_snoc distinct_update)
qed

lemma map_of_group_rows:
  "map_of (group_rows rows) k = (if rows_of k rows = [] then None else Some (rows_of k rows))"
proof (induction rows rule: rev_induct)
  case Nil
  then show ?case by (simp add: group_rows_def rows_of_def)
next
  case (snoc r rows)
  show ?case
  proof (cases "ct_componentId r = k")
    case True
    then show ?thesis using snoc
      by (simp add: group_rows_snoc update_conv' lookup_def rows_of_def)
  next
    case False
    then show ?thesis using snoc
      by (simp add: group_rows_snoc update_conv' rows_of_def)
  qed
qed

lemma map_fst_sort_contents: "map fst (sort_contents cc) = map fst cc"
  by (induction cc) (auto simp: sort_contents_def)

lemma map_of_sort_contents:
  "map_of (sort_contents cc) k = map_option (sort_key position) (map_of cc k)"
  by (induction cc) (auto simp: sort_contents_def)

lemma lookup_sorted_rows:
  "lookup (sort_contents (group_rows rows)) k = sort_key position (rows_of k rows)"
  by (simp add: lookup_def map_of_sort_contents map_of_group_rows)

lemma map_of_sorted_rows:
  "map_of (sort_contents (group_rows rows)) k =
     (if rows_of k rows = [] then None else Some (sort_key position (rows_of k rows)))"
  by (simp add: map_of_sort_contents map_of_group_rows)

lemma distinct_sorted_rows: "distinct (map fst (sort_contents (group_rows rows)))"
  by (simp add: map_fst_sort_contents distinct_group_rows)


subsection \<open>What one row adds\<close>

lemma add_item_refs:
  "add_item components flds it tg =
     (fst tg @ fst (item_refs components flds it), snd tg @ snd (item_refs components flds it))"
proof (cases "find (\<lambda>c. c_name c = tagText it) (map snd components)")
  case None
  then show ?thesis
    unfolding item_refs_def add_item_def Let_def by (simp split: option.splits)
next
  case (Some c)
  then show ?thesis
    unfolding item_refs_def add_item_def Let_def by (simp split: option.splits)
qed

lemma fold_add_item:
  "fold (add_item components flds) items tg =
     (fst tg @ concat (map (\<lambda>it. fst (item_refs components flds it)) items),
      snd tg @ concat (map (\<lambda>it. snd (item_refs components flds it)) items))"
proof (induction items arbitrary: tg)
  case Nil
  then show ?case by simp
next
  case (Cons it items)
  show ?case
    by (simp add: Cons.IH) (simp add: add_item_refs [of components flds it tg])
qed

lemma find_names:
  "map_option c_componentId (find (\<lambda>c. c_name c = t) (map snd components))
     = map_option snd (find (\<lambda>p. fst p = t) (names components))"
  by (induction components) (auto simp: names_def)

lemma add_item_find:
  "add_item components flds it tg =
     (let tag_text = tagText it in
      if tag_text = ''StandardHeader'' \<or> tag_text = ''StandardTrailer'' then tg
      else if py_isdigit tag_text then
        (let tag = py_int tag_text in
         case map_of flds tag of
           Some fld \<Rightarrow>
             if f_type fld = ''NumInGroup''
             then (fst tg, snd tg @ [CountRef tag (f_name fld) (indent it)])
             else (fst tg @ [\<lparr>t_tag = tag, t_indent = indent it\<rparr>], snd tg)
         | None \<Rightarrow> tg)
      else
        (case map_option c_componentId (find (\<lambda>c. c_name c = tag_text) (map snd components)) of
           Some ref_id \<Rightarrow> (fst tg, snd tg @ [ComponentRef ref_id tag_text (indent it)])
         | None \<Rightarrow> tg))"
proof (cases "find (\<lambda>c. c_name c = tagText it) (map snd components)")
  case None
  then show ?thesis unfolding add_item_def Let_def by simp
next
  case (Some c)
  then show ?thesis unfolding add_item_def Let_def by simp
qed

lemma add_item_names:
  "names cs = names cs' \<Longrightarrow> add_item cs flds it tg = add_item cs' flds it tg"
  by (simp only: add_item_find find_names)

lemma item_refs_names: "names cs = names cs' \<Longrightarrow> item_refs cs flds = item_refs cs' flds"
  by (rule ext) (simp add: item_refs_def add_item_names [of cs cs'])

lemma extend_names:
  "names cs = names cs' \<Longrightarrow> extend_message cs flds = extend_message cs' flds"
  "names cs = names cs' \<Longrightarrow> extend_component cs flds = extend_component cs' flds"
  by (simp_all add: extend_message_def extend_component_def fun_eq_iff
        item_refs_names [of cs cs'])


subsection \<open>The loop over the owners\<close>

lemma attach_eq:
  "attach flds (k0, items) (ms, cs) =
     (case map_of ms k0 of
        Some m \<Rightarrow> (AList.update k0 (extend_message cs flds items m) ms, cs)
      | None \<Rightarrow>
          (case map_of cs k0 of
             Some c \<Rightarrow> (ms, AList.update k0 (extend_component cs flds items c) cs)
           | None \<Rightarrow> (ms, cs)))"
  by (simp add: attach_def Let_def fold_add_item extend_message_def extend_component_def
           split: option.splits)

lemma keys_update_present:
  "map_of al k = Some v \<Longrightarrow> map fst (AList.update k v' al) = map fst al"
  by (induction al) (auto split: if_splits)

lemma names_update:
  "map_of cs k = Some c \<Longrightarrow> c_name c' = c_name c \<Longrightarrow> c_componentId c' = c_componentId c
     \<Longrightarrow> names (AList.update k c' cs) = names cs"
  by (induction cs) (auto simp: names_def split: if_splits)

lemma attach_names: "names (snd (attach flds e (ms, cs))) = names cs"
  by (cases e) (simp add: attach_eq names_update extend_component_def split: option.splits)

lemma attach_keys:
  "map fst (fst (attach flds e (ms, cs))) = map fst ms"
  "map fst (snd (attach flds e (ms, cs))) = map fst cs"
  by (cases e; simp add: attach_eq keys_update_present split: option.splits)+

lemma attach_messages:
  "map_of (fst (attach flds (k0, items) (ms, cs))) k =
     (if k = k0 then map_option (extend_message cs flds items) (map_of ms k) else map_of ms k)"
  by (simp add: attach_eq update_conv' split: option.splits)

lemma attach_components:
  "map_of (snd (attach flds (k0, items) (ms, cs))) k =
     (if k = k0 \<and> map_of ms k0 = None
      then map_option (extend_component cs flds items) (map_of cs k) else map_of cs k)"
  by (simp add: attach_eq update_conv' split: option.splits)

lemma fold_attach:
  "distinct (map fst cc) \<Longrightarrow> assoc_result flds cc ms cs (fold (attach flds) cc (ms, cs))"
proof (induction cc arbitrary: ms cs)
  case Nil
  then show ?case by (simp add: assoc_result_def)
next
  case (Cons e rest)
  obtain k0 items0 where e: "e = (k0, items0)" by (cases e)
  obtain ms1 cs1 where st: "attach flds e (ms, cs) = (ms1, cs1)" by (cases "attach flds e (ms, cs)")
  from Cons.prems have d: "distinct (map fst rest)" and nk: "map_of rest k0 = None"
    by (auto simp: e map_of_eq_None_iff)
  have n1: "names cs1 = names cs" using attach_names [of flds e ms cs] by (simp add: st)
  have k1: "map fst ms1 = map fst ms" "map fst cs1 = map fst cs"
    using attach_keys [of flds e ms cs] by (simp_all add: st)
  have m1: "\<And>k. map_of ms1 k =
     (if k = k0 then map_option (extend_message cs flds items0) (map_of ms k) else map_of ms k)"
    using attach_messages [of flds k0 items0 ms cs] by (simp add: st [unfolded e])
  have c1: "\<And>k. map_of cs1 k =
     (if k = k0 \<and> map_of ms k0 = None
      then map_option (extend_component cs flds items0) (map_of cs k) else map_of cs k)"
    using attach_components [of flds k0 items0 ms cs] by (simp add: st [unfolded e])
  have em: "extend_message cs1 flds = extend_message cs flds"
    and ec: "extend_component cs1 flds = extend_component cs flds"
    using n1 by (rule extend_names)+
  from Cons.IH [OF d, of ms1 cs1]
  have ih: "assoc_result flds rest ms1 cs1 (fold (attach flds) rest (ms1, cs1))" .
  let ?R = "fold (attach flds) rest (ms1, cs1)"
  have R: "fold (attach flds) (e # rest) (ms, cs) = ?R" by (simp add: st)
  have a: "names (snd ?R) = names cs" using ih n1 by (simp add: assoc_result_def)
  have b: "map fst (fst ?R) = map fst ms" "map fst (snd ?R) = map fst cs"
    using ih k1 by (simp_all add: assoc_result_def)
  have c: "map_of (fst ?R) k =
             (case map_of (e # rest) k of
                None \<Rightarrow> map_of ms k
              | Some items \<Rightarrow> map_option (extend_message cs flds items) (map_of ms k))" for k
  proof (cases "k = k0")
    case True
    from ih have "map_of (fst ?R) k0 = map_of ms1 k0"
      by (simp add: assoc_result_def nk)
    then show ?thesis by (simp add: True e m1)
  next
    case False
    from ih have "map_of (fst ?R) k =
             (case map_of rest k of
                None \<Rightarrow> map_of ms1 k
              | Some items \<Rightarrow> map_option (extend_message cs1 flds items) (map_of ms1 k))"
      by (simp add: assoc_result_def)
    then show ?thesis using False by (simp add: e m1 em split: option.splits)
  qed
  have dd: "map_of (snd ?R) k =
             (if map_of ms k \<noteq> None then map_of cs k
              else case map_of (e # rest) k of
                     None \<Rightarrow> map_of cs k
                   | Some items \<Rightarrow> map_option (extend_component cs flds items) (map_of cs k))" for k
  proof -
    from ih have i: "map_of (snd ?R) k =
             (if map_of ms1 k \<noteq> None then map_of cs1 k
              else case map_of rest k of
                     None \<Rightarrow> map_of cs1 k
                   | Some items \<Rightarrow> map_option (extend_component cs1 flds items) (map_of cs1 k))"
      by (simp add: assoc_result_def)
    have mn: "map_of ms1 k = None \<longleftrightarrow> map_of ms k = None" by (simp add: m1)
    show ?thesis
    proof (cases "k = k0")
      case True
      then show ?thesis using i mn by (simp add: nk e c1 split: option.splits)
    next
      case False
      then show ?thesis using i mn by (simp add: e c1 ec split: option.splits)
    qed
  qed
  show ?case unfolding R assoc_result_def using a b c dd by blast
qed

lemma parse_msg_contents_result:
  "assoc_result flds (sort_contents (group_rows rows)) ms cs
     (fst (parse_msg_contents rows ms cs flds), fst (snd (parse_msg_contents rows ms cs flds)))"
  using fold_attach [OF distinct_sorted_rows, of flds rows ms cs]
  by (simp add: parse_msg_contents_def Let_def)

lemma parse_msg_contents_rows:
  "snd (snd (parse_msg_contents rows ms cs flds)) = sort_contents (group_rows rows)"
  by (simp add: parse_msg_contents_def Let_def)


lemma extend_Nil [simp]: "extend_message cs flds [] m = m" "extend_component cs flds [] c = c"
  by (simp_all add: extend_message_def extend_component_def)

lemma owner_messages:
  "map_of ms k = Some m \<Longrightarrow>
   map_of (fst (parse_msg_contents rows ms cs flds)) k
     = Some (extend_message cs flds (sort_key position (rows_of k rows)) m)"
  using parse_msg_contents_result [of flds rows ms cs]
  by (simp add: assoc_result_def map_of_sorted_rows)

lemma owner_components:
  "map_of ms k = None \<Longrightarrow> map_of cs k = Some c \<Longrightarrow>
   map_of (fst (snd (parse_msg_contents rows ms cs flds))) k
     = Some (extend_component cs flds (sort_key position (rows_of k rows)) c)"
  using parse_msg_contents_result [of flds rows ms cs]
  by (simp add: assoc_result_def map_of_sorted_rows)

lemma shadowed_components:
  "map_of ms k = Some m \<Longrightarrow>
   map_of (fst (snd (parse_msg_contents rows ms cs flds))) k = map_of cs k"
  using parse_msg_contents_result [of flds rows ms cs]
  by (simp add: assoc_result_def)

text \<open>
  C3. For every owner \<open>k\<close> the rows the associator keeps and processes are the rows of
  \<open>k\<close> sorted ascending by position, rows of equal position in file order, wherever
  they stand in the file. The owner's scalar-tag list and group-reference list are extended
  by what these rows add, row by row in that order: on the message when \<open>k\<close> is a
  message, on the component when \<open>k\<close> is only a component.
\<close>

theorem rows_processed_in_position_order:
  "sorted (map position (sort_key position (rows_of k rows)))
   \<and> (\<forall>p. filter (\<lambda>it. position it = p) (sort_key position (rows_of k rows))
          = filter (\<lambda>it. position it = p) (rows_of k rows))
   \<and> lookup (snd (snd (parse_msg_contents rows messages components flds))) k
       = sort_key position (rows_of k rows)
   \<and> (map_of messages k = Some m \<longrightarrow>
        map_of (fst (parse_msg_contents rows messages components flds)) k
          = Some (extend_message components flds (sort_key position (rows_of k rows)) m))
   \<and> (map_of messages k = None \<and> map_of components k = Some c \<longrightarrow>
        map_of (fst (snd (parse_msg_contents rows messages components flds))) k
          = Some (extend_component components flds (sort_key position (rows_of k rows)) c))"
  by (simp add: parse_msg_contents_rows lookup_sorted_rows owner_messages owner_components
        sort_key_stable)

lemma ex_rows_14:
  "sort_key position (rows_of ''14'' ex_rows) = [mk_item ''1'' 0 1, mk_item ''2'' 0 2, mk_item ''3'' 0 3]"
  by (simp add: rows_of_def ex_rows_def to_item_def mk_item_def)

lemma ex_rows_1000:
  "sort_key position (rows_of ''1000'' ex_rows) = [mk_item ''2'' 0 1, mk_item ''1'' 1 2]"
  by (simp add: rows_of_def ex_rows_def to_item_def mk_item_def)

lemma ex_item_refs:
  "item_refs ex_components2 ex_fields (mk_item ''1'' i p) = ([\<lparr>t_tag = 1, t_indent = i\<rparr>], [])"
  "item_refs ex_components2 ex_fields (mk_item ''2'' i p) = ([], [CountRef 2 ''NoOrders'' i])"
  "item_refs ex_components2 ex_fields (mk_item ''3'' i p) = ([], [CountRef 3 ''NoLegs'' i])"
  by (simp_all add: item_refs_def add_item_def mk_item_def ex_fields_def py_isdigit_simps Let_def)

theorem rows_processed_in_position_order_witness:
  "map_of ex_messages ''14''
     = Some \<lparr>m_componentId = ''14'', m_msgType = ''D'', m_name = ''NewOrderSingle'',
              m_tags = [], m_groups = []\<rparr>
   \<and> map_of (fst (parse_msg_contents ex_rows ex_messages ex_components2 ex_fields)) ''14''
     = Some \<lparr>m_componentId = ''14'', m_msgType = ''D'', m_name = ''NewOrderSingle'',
              m_tags = [\<lparr>t_tag = 1, t_indent = 0\<rparr>],
              m_groups = [CountRef 2 ''NoOrders'' 0, CountRef 3 ''NoLegs'' 0]\<rparr>
   \<and> map_of ex_messages ''1000'' = None
   \<and> map_of ex_components2 ''1000''
     = Some \<lparr>c_componentId = ''1000'', c_name = ''OrdersGroup'', c_type = ''BlockRepeating'',
              c_tags = [], c_groups = []\<rparr>
   \<and> map_of (fst (snd (parse_msg_contents ex_rows ex_messages ex_components2 ex_fields))) ''1000''
     = Some \<lparr>c_componentId = ''1000'', c_name = ''OrdersGroup'', c_type = ''BlockRepeating'',
              c_tags = [\<lparr>t_tag = 1, t_indent = 1\<rparr>],
              c_groups = [CountRef 2 ''NoOrders'' 0]\<rparr>"
proof -
  have a: "map_of ex_messages ''14''
     = Some \<lparr>m_componentId = ''14'', m_msgType = ''D'', m_name = ''NewOrderSingle'',
              m_tags = [], m_groups = []\<rparr>"
    by (simp add: ex_messages_def)
  have b: "map_of ex_messages ''1000'' = None" by (simp add: ex_messages_def)
  have c: "map_of ex_components2 ''1000''
     = Some \<lparr>c_componentId = ''1000'', c_name = ''OrdersGroup'', c_type = ''BlockRepeating'',
              c_tags = [], c_groups = []\<rparr>"
    by (simp add: ex_components2_def)
  from rows_processed_in_position_order
         [of "''14''" ex_rows ex_messages ex_components2 ex_fields
             "\<lparr>m_componentId = ''14'', m_msgType = ''D'', m_name = ''NewOrderSingle'',
              m_tags = [], m_groups = []\<rparr>"] a
  have m: "map_of (fst (parse_msg_contents ex_rows ex_messages ex_components2 ex_fields)) ''14''
     = Some \<lparr>m_componentId = ''14'', m_msgType = ''D'', m_name = ''NewOrderSingle'',
              m_tags = [\<lparr>t_tag = 1, t_indent = 0\<rparr>],
              m_groups = [CountRef 2 ''NoOrders'' 0, CountRef 3 ''NoLegs'' 0]\<rparr>"
    by (simp add: ex_rows_14 extend_message_def ex_item_refs)
  from rows_processed_in_position_order
         [of "''1000''" ex_rows ex_messages ex_components2 ex_fields _
             "\<lparr>c_componentId = ''1000'', c_name = ''OrdersGroup'', c_type = ''BlockRepeating'',
              c_tags = [], c_groups = []\<rparr>"] b c
  have d: "map_of (fst (snd (parse_msg_contents ex_rows ex_messages ex_components2 ex_fields))) ''1000''
     = Some \<lparr>c_componentId = ''1000'', c_name = ''OrdersGroup'', c_type = ''BlockRepeating'',
              c_tags = [\<lparr>t_tag = 1, t_indent = 1\<rparr>],
              c_groups = [CountRef 2 ''NoOrders'' 0]\<rparr>"
    by (simp add: ex_rows_1000 extend_component_def ex_item_refs)
  from a b c m d show ?thesis by simp
qed

text \<open>
  C9. When an owner identifier is a key of both tables, the references go to the message
  record and the component record stays as it was. The component record is extended only
  when the identifier is no key of the message table.
\<close>

theorem message_shadows_component:
  "(map_of messages k = Some m \<and> map_of components k = Some c \<longrightarrow>
      map_of (fst (parse_msg_contents rows messages components flds)) k
        = Some (extend_message components flds (sort_key position (rows_of k rows)) m)
      \<and> map_of (fst (snd (parse_msg_contents rows messages components flds))) k = Some c)
   \<and> (map_of messages k = None \<and> map_of components k = Some c \<longrightarrow>
        map_of (fst (snd (parse_msg_contents rows messages components flds))) k
          = Some (extend_component components flds (sort_key position (rows_of k rows)) c))"
  by (simp add: owner_messages owner_components shadowed_components)

theorem message_shadows_component_witness:
  "map_of ex_messages ''14''
     = Some \<lparr>m_componentId = ''14'', m_msgType = ''D'', m_name = ''NewOrderSingle'',
              m_tags = [], m_groups = []\<rparr>
   \<and> map_of ex_components2 ''14''
     = Some \<lparr>c_componentId = ''14'', c_name = ''Shadow'', c_type = ''Block'',
               c_tags = [], c_groups = []\<rparr>
   \<and> map_of (fst (snd (parse_msg_contents ex_rows ex_messages ex_components2 ex_fields))) ''14''
     = Some \<lparr>c_componentId = ''14'', c_name = ''Shadow'', c_type = ''Block'',
               c_tags = [], c_groups = []\<rparr>
   \<and> map_of (fst (parse_msg_contents ex_rows ex_messages ex_components2 ex_fields)) ''14''
     = Some \<lparr>m_componentId = ''14'', m_msgType = ''D'', m_name = ''NewOrderSingle'',
              m_tags = [\<lparr>t_tag = 1, t_indent = 0\<rparr>],
              m_groups = [CountRef 2 ''NoOrders'' 0, CountRef 3 ''NoLegs'' 0]\<rparr>
   \<and> map_of ex_messages ''1000'' = None
   \<and> map_of ex_components2 ''1000''
     = Some \<lparr>c_componentId = ''1000'', c_name = ''OrdersGroup'', c_type = ''BlockRepeating'',
              c_tags = [], c_groups = []\<rparr>
   \<and> map_of (fst (snd (parse_msg_contents ex_rows ex_messages ex_components2 ex_fields))) ''1000''
     = Some \<lparr>c_componentId = ''1000'', c_name = ''OrdersGroup'', c_type = ''BlockRepeating'',
              c_tags = [\<lparr>t_tag = 1, t_indent = 1\<rparr>],
              c_groups = [CountRef 2 ''NoOrders'' 0]\<rparr>"
proof -
  have a: "map_of ex_messages ''14''
     = Some \<lparr>m_componentId = ''14'', m_msgType = ''D'', m_name = ''NewOrderSingle'',
              m_tags = [], m_groups = []\<rparr>"
    by (simp add: ex_messages_def)
  have a': "map_of ex_components2 ''14''
     = Some \<lparr>c_componentId = ''14'', c_name = ''Shadow'', c_type = ''Block'',
               c_tags = [], c_groups = []\<rparr>"
    by (simp add: ex_components2_def)
  have b: "map_of ex_messages ''1000'' = None" by (simp add: ex_messages_def)
  have c: "map_of ex_components2 ''1000''
     = Some \<lparr>c_componentId = ''1000'', c_name = ''OrdersGroup'', c_type = ''BlockRepeating'',
              c_tags = [], c_groups = []\<rparr>"
    by (simp add: ex_components2_def)
  from message_shadows_component
         [of ex_messages "''14''"
             "\<lparr>m_componentId = ''14'', m_msgType = ''D'', m_name = ''NewOrderSingle'',
              m_tags = [], m_groups = []\<rparr>" ex_components2
             "\<lparr>c_componentId = ''14'', c_name = ''Shadow'', c_type = ''Block'',
               c_tags = [], c_groups = []\<rparr>" ex_rows ex_fields] a a'
  have m: "map_of (fst (snd (parse_msg_contents ex_rows ex_messages ex_components2 ex_fields))) ''14''
     = Some \<lparr>c_componentId = ''14'', c_name = ''Shadow'', c_type = ''Block'',
               c_tags = [], c_groups = []\<rparr>
   \<and> map_of (fst (parse_msg_contents ex_rows ex_messages ex_components2 ex_fields)) ''14''
     = Some \<lparr>m_componentId = ''14'', m_msgType = ''D'', m_name = ''NewOrderSingle'',
              m_tags = [\<lparr>t_tag = 1, t_indent = 0\<rparr>],
              m_groups = [CountRef 2 ''NoOrders'' 0, CountRef 3 ''NoLegs'' 0]\<rparr>"
    by (simp add: ex_rows_14 extend_message_def ex_item_refs)
  from message_shadows_component
         [of ex_messages "''1000''" _ ex_components2
             "\<lparr>c_componentId = ''1000'', c_name = ''OrdersGroup'', c_type = ''BlockRepeating'',
              c_tags = [], c_groups = []\<rparr>" ex_rows ex_fields] b c
  have d: "map_of (fst (snd (parse_msg_contents ex_rows ex_messages ex_components2 ex_fields))) ''1000''
     = Some \<lparr>c_componentId = ''1000'', c_name = ''OrdersGroup'', c_type = ''BlockRepeating'',
              c_tags = [\<lparr>t_tag = 1, t_indent = 1\<rparr>],
              c_groups = [CountRef 2 ''NoOrders'' 0]\<rparr>"
    by (simp add: ex_rows_1000 extend_component_def ex_item_refs)
  from a a' b c m d show ?thesis by simp
qed

subsection \<open>Header and trailer placeholders\<close>

lemma placeholder_not_digit: "is_placeholder t \<Longrightarrow> \<not> py_isdigit t"
  by (auto simp: is_placeholder_def py_isdigit_def is_digit_char_def)

lemma add_item_placeholder: "is_placeholder (tagText it) \<Longrightarrow> add_item cs flds it tg = tg"
  by (simp add: add_item_def is_placeholder_def)

lemma scan_item_placeholder: "is_placeholder (tagText it) \<Longrightarrow> scan_item flds it st = st"
  by (simp add: scan_item_def placeholder_not_digit)

lemma item_refs_placeholder: "is_placeholder (tagText it) \<Longrightarrow> item_refs cs flds it = ([], [])"
  by (simp add: item_refs_def add_item_placeholder)

lemma fold_filter_id:
  "(\<And>x s. \<not> P x \<Longrightarrow> f x s = s) \<Longrightarrow> fold f (filter P xs) s = fold f xs s"
  by (induction xs arbitrary: s) simp_all

lemma concat_map_filter_empty:
  "(\<And>x. \<not> P x \<Longrightarrow> f x = []) \<Longrightarrow> concat (map f (filter P xs)) = concat (map f xs)"
  by (induction xs) simp_all

lemma scan_contents_keep:
  "scan_contents flds (filter (\<lambda>it. \<not> is_placeholder (tagText it)) xs) = scan_contents flds xs"
  unfolding scan_contents_def by (rule fold_filter_id) (simp add: scan_item_placeholder)

lemma extend_message_keep:
  "extend_message cs flds (filter (\<lambda>it. \<not> is_placeholder (tagText it)) xs) m
     = extend_message cs flds xs m"
proof -
  have "concat (map (\<lambda>it. fst (item_refs cs flds it))
                 (filter (\<lambda>it. \<not> is_placeholder (tagText it)) xs))
        = concat (map (\<lambda>it. fst (item_refs cs flds it)) xs)"
    by (rule concat_map_filter_empty) (simp add: item_refs_placeholder)
  moreover have "concat (map (\<lambda>it. snd (item_refs cs flds it))
                 (filter (\<lambda>it. \<not> is_placeholder (tagText it)) xs))
        = concat (map (\<lambda>it. snd (item_refs cs flds it)) xs)"
    by (rule concat_map_filter_empty) (simp add: item_refs_placeholder)
  ultimately show ?thesis by (simp add: extend_message_def)
qed

lemma extend_component_keep:
  "extend_component cs flds (filter (\<lambda>it. \<not> is_placeholder (tagText it)) xs) c
     = extend_component cs flds xs c"
proof -
  have "concat (map (\<lambda>it. fst (item_refs cs flds it))
                 (filter (\<lambda>it. \<not> is_placeholder (tagText it)) xs))
        = concat (map (\<lambda>it. fst (item_refs cs flds it)) xs)"
    by (rule concat_map_filter_empty) (simp add: item_refs_placeholder)
  moreover have "concat (map (\<lambda>it. snd (item_refs cs flds it))
                 (filter (\<lambda>it. \<not> is_placeholder (tagText it)) xs))
        = concat (map (\<lambda>it. snd (item_refs cs flds it)) xs)"
    by (rule concat_map_filter_empty) (simp add: item_refs_placeholder)
  ultimately show ?thesis by (simp add: extend_component_def)
qed

lemma extend_keep_fun:
  "extend_message cs flds (filter (\<lambda>it. \<not> is_placeholder (tagText it)) xs)
     = extend_message cs flds xs"
  "extend_component cs flds (filter (\<lambda>it. \<not> is_placeholder (tagText it)) xs)
     = extend_component cs flds xs"
  by (rule ext, rule extend_message_keep) (rule ext, rule extend_component_keep)

lemma rows_of_keep:
  "rows_of k (drop_placeholders rows) = filter (\<lambda>it. \<not> is_placeholder (tagText it)) (rows_of k rows)"
  by (induction rows) (auto simp: rows_of_def drop_placeholders_def to_item_def)

lemma sorted_rows_keep:
  "sort_key position (rows_of k (drop_placeholders rows))
     = filter (\<lambda>it. \<not> is_placeholder (tagText it)) (sort_key position (rows_of k rows))"
  by (simp add: rows_of_keep filter_sort)

lemma messages_after:
  "map_of (fst (parse_msg_contents rows ms cs flds)) k
     = map_option (extend_message cs flds (sort_key position (rows_of k rows))) (map_of ms k)"
proof (cases "map_of ms k")
  case None
  then show ?thesis
    using parse_msg_contents_result [of flds rows ms cs]
    by (simp add: assoc_result_def split: option.splits)
next
  case (Some m)
  then show ?thesis by (simp add: owner_messages)
qed

lemma components_after:
  "map_of (fst (snd (parse_msg_contents rows ms cs flds))) k
     = (if map_of ms k \<noteq> None then map_of cs k
        else map_option (extend_component cs flds (sort_key position (rows_of k rows))) (map_of cs k))"
proof (cases "map_of ms k")
  case (Some m)
  then show ?thesis by (simp add: shadowed_components)
next
  case None
  note n = this
  show ?thesis
  proof (cases "map_of cs k")
    case None
    then show ?thesis
      using n parse_msg_contents_result [of flds rows ms cs]
      by (simp add: assoc_result_def split: option.splits)
  next
    case (Some c)
    then show ?thesis using n by (simp add: owner_components)
  qed
qed

lemma alist_eqI:
  "distinct (map fst xs) \<Longrightarrow> map fst xs = map fst ys \<Longrightarrow> (\<And>k. map_of xs k = map_of ys k)
     \<Longrightarrow> xs = ys"
proof (induction xs arbitrary: ys)
  case Nil
  then show ?case by simp
next
  case (Cons x xs)
  from Cons.prems(2) obtain y ys' where ys: "ys = y # ys'" by (cases ys) auto
  obtain k v where x: "x = (k, v)" by (cases x)
  from Cons.prems(2) ys x obtain v' where y: "y = (k, v')" by (cases y) auto
  from Cons.prems(3) [of k] have vv: "v = v'" by (simp add: ys x y)
  have keys: "map fst xs = map fst ys'" using Cons.prems(2) by (simp add: ys)
  have nk: "k \<notin> fst ` set xs" using Cons.prems(1) by (simp add: x)
  have "map_of xs k' = map_of ys' k'" for k'
  proof (cases "k' = k")
    case True
    have "map_of xs k = None" using nk by (simp add: map_of_eq_None_iff)
    moreover have "k \<notin> fst ` set ys'" using nk keys by (metis set_map)
    then have "map_of ys' k = None" by (simp add: map_of_eq_None_iff)
    ultimately show ?thesis using True by simp
  next
    case False
    then show ?thesis using Cons.prems(3) [of k'] by (simp add: ys x y)
  qed
  with Cons.IH [of ys'] Cons.prems(1) keys have "xs = ys'" by simp
  then show ?case by (simp add: ys x y vv)
qed

lemma parse_msg_contents_keys:
  "map fst (fst (parse_msg_contents rows ms cs flds)) = map fst ms"
  "map fst (fst (snd (parse_msg_contents rows ms cs flds))) = map fst cs"
  using parse_msg_contents_result [of flds rows ms cs] by (simp_all add: assoc_result_def)

lemma messages_keep:
  assumes "distinct (map fst ms)"
  shows "fst (parse_msg_contents (drop_placeholders rows) ms cs flds)
         = fst (parse_msg_contents rows ms cs flds)"
proof (rule alist_eqI)
  show "distinct (map fst (fst (parse_msg_contents (drop_placeholders rows) ms cs flds)))"
    using assms by (simp add: parse_msg_contents_keys)
  show "map fst (fst (parse_msg_contents (drop_placeholders rows) ms cs flds))
        = map fst (fst (parse_msg_contents rows ms cs flds))"
    by (simp add: parse_msg_contents_keys)
  show "map_of (fst (parse_msg_contents (drop_placeholders rows) ms cs flds)) k
        = map_of (fst (parse_msg_contents rows ms cs flds)) k" for k
    by (simp add: messages_after sorted_rows_keep extend_keep_fun)
qed

lemma components_keep:
  assumes "distinct (map fst cs)"
  shows "fst (snd (parse_msg_contents (drop_placeholders rows) ms cs flds))
         = fst (snd (parse_msg_contents rows ms cs flds))"
proof (rule alist_eqI)
  show "distinct (map fst (fst (snd (parse_msg_contents (drop_placeholders rows) ms cs flds))))"
    using assms by (simp add: parse_msg_contents_keys)
  show "map fst (fst (snd (parse_msg_contents (drop_placeholders rows) ms cs flds)))
        = map fst (fst (snd (parse_msg_contents rows ms cs flds)))"
    by (simp add: parse_msg_contents_keys)
  show "map_of (fst (snd (parse_msg_contents (drop_placeholders rows) ms cs flds))) k
        = map_of (fst (snd (parse_msg_contents rows ms cs flds))) k" for k
    by (simp add: components_after sorted_rows_keep extend_keep_fun)
qed

lemma scan_contents_Nil:
  "scan_contents flds [] = \<lparr>count_tag = None, first_tag = None, member_tags = []\<rparr>"
  by (simp add: scan_contents_def)

lemma identify_component_scan:
  "identify_component cc flds e groups =
     (if c_type (snd e) = ''BlockRepeating'' then
        (let st = scan_contents flds (lookup cc (fst e)) in
         case (count_tag st, first_tag st) of
           (Some ctag, Some ftag) \<Rightarrow>
             if ctag \<noteq> 0 \<and> ftag \<noteq> 0
             then AList.update (c_name (snd e))
                    \<lparr>g_name = c_name (snd e), g_countTag = ctag, g_firstTag = ftag,
                     g_memberTags = member_tags st\<rparr> groups
             else groups
         | _ \<Rightarrow> groups)
      else groups)"
  by (simp add: identify_component_def lookup_def Let_def scan_contents_Nil split: option.splits)

lemma identify_groups_keep:
  "identify_repeating_groups cs (sort_contents (group_rows (drop_placeholders rows))) flds
     = identify_repeating_groups cs (sort_contents (group_rows rows)) flds"
proof -
  have "identify_component (sort_contents (group_rows (drop_placeholders rows))) flds
          = identify_component (sort_contents (group_rows rows)) flds"
    by (intro ext)
       (simp only: identify_component_scan lookup_sorted_rows sorted_rows_keep scan_contents_keep)
  then show ?thesis by (simp add: identify_repeating_groups_def)
qed

lemma distinct_parse_messages: "distinct (map fst (parse_messages rows))"
proof -
  have "distinct (map fst ms) \<Longrightarrow> distinct (map fst (fold (\<lambda>r messages. AList.update (mr_componentId r)
             \<lparr>m_componentId = mr_componentId r, m_msgType = mr_msgType r, m_name = mr_name r,
              m_tags = [], m_groups = []\<rparr> messages) rows ms))" for ms
    by (induction rows arbitrary: ms) (simp_all add: distinct_update)
  then show ?thesis by (simp add: parse_messages_def)
qed

lemma distinct_parse_components: "distinct (map fst (parse_components rows))"
proof -
  have "distinct (map fst cs) \<Longrightarrow> distinct (map fst (fold (\<lambda>r components. AList.update (cr_componentId r)
             \<lparr>c_componentId = cr_componentId r, c_name = cr_name r, c_type = cr_type r,
              c_tags = [], c_groups = []\<rparr> components) rows cs))" for cs
    by (induction rows arbitrary: cs) (simp_all add: distinct_update)
  then show ?thesis by (simp add: parse_components_def)
qed

text \<open>
  C5. A content row whose tag-text is StandardHeader or StandardTrailer adds nothing to the
  owner's scalar-tag and group-reference lists (no tag, no group start, no component
  reference) and nothing to the scan of a repeating component (no count tag, no member).
  Hence the document of a version is the same as if the content table had no such rows.
\<close>

theorem placeholders_leave_no_trace:
  "(is_placeholder (tagText it) \<longrightarrow>
      add_item components flds it tg = tg \<and> scan_item flds it st = st)
   \<and> process_version version (tb\<lparr>tb_contents := drop_placeholders (tb_contents tb)\<rparr>)
       = process_version version tb"
proof -
  let ?ms = "parse_messages (tb_messages tb)" and ?cs = "parse_components (tb_components tb)"
  let ?f = "load_fields tb"
  have m: "fst (parse_msg_contents (drop_placeholders (tb_contents tb)) ?ms ?cs ?f)
            = fst (parse_msg_contents (tb_contents tb) ?ms ?cs ?f)"
    by (rule messages_keep [OF distinct_parse_messages])
  have c: "fst (snd (parse_msg_contents (drop_placeholders (tb_contents tb)) ?ms ?cs ?f))
            = fst (snd (parse_msg_contents (tb_contents tb) ?ms ?cs ?f))"
    by (rule components_keep [OF distinct_parse_components])
  have g: "identify_repeating_groups (fst (snd (parse_msg_contents (tb_contents tb) ?ms ?cs ?f)))
             (snd (snd (parse_msg_contents (drop_placeholders (tb_contents tb)) ?ms ?cs ?f))) ?f
           = identify_repeating_groups (fst (snd (parse_msg_contents (tb_contents tb) ?ms ?cs ?f)))
             (snd (snd (parse_msg_contents (tb_contents tb) ?ms ?cs ?f))) ?f"
    by (simp only: parse_msg_contents_rows identify_groups_keep)
  have lf: "load_fields (tb\<lparr>tb_contents := drop_placeholders (tb_contents tb)\<rparr>) = load_fields tb"
    by (simp add: load_fields_def)
  have "process_version version (tb\<lparr>tb_contents := drop_placeholders (tb_contents tb)\<rparr>)
       = process_version version tb"
    by (simp add: process_version_def Let_def lf m c g)
  then show ?thesis by (simp add: add_item_placeholder scan_item_placeholder)
qed

theorem placeholders_leave_no_trace_witness:
  "is_placeholder (tagText (mk_item ''StandardHeader'' 0 1))
   \<and> add_item ex_components2 ex_fields (mk_item ''StandardHeader'' 0 1) ([], []) = ([], [])
   \<and> scan_item ex_fields (mk_item ''StandardHeader'' 0 1)
        \<lparr>count_tag = None, first_tag = None, member_tags = []\<rparr>
      = \<lparr>count_tag = None, first_tag = None, member_tags = []\<rparr>"
proof -
  have a: "is_placeholder (tagText (mk_item ''StandardHeader'' 0 1))"
    by (simp add: is_placeholder_def mk_item_def)
  from placeholders_leave_no_trace
         [of "mk_item ''StandardHeader'' 0 1" ex_components2 ex_fields "([], [])"
             "\<lparr>count_tag = None, first_tag = None, member_tags = []\<rparr>"] a
  show ?thesis by simp
qed

end
